theory Spec2Isabelle
  imports Main "HOL-Library.Sublist"
begin

section \<open>Strings\<close>

text \<open>
  A Python \<^verbatim>\<open>str\<close> is a sequence of Unicode code points; it is modelled as the list
  of its code points, each a natural number. \<open>py\<close> turns a literal into such a list,
  so that \<open>py ''def ''\<close> stands for the Python literal \<^verbatim>\<open>'def '\<close>.
\<close>

type_synonym pystr = "nat list"

definition py :: "string \<Rightarrow> pystr" where
  "py s = map of_char s"

text \<open>
  \<^verbatim>\<open>str.isspace\<close> on one character: the code points Python treats as whitespace,
  which are the ones \<^verbatim>\<open>str.strip()\<close> removes.
\<close>

definition isspace :: "nat \<Rightarrow> bool" where
  "isspace c \<longleftrightarrow>
     (9 \<le> c \<and> c \<le> 13) \<or> (28 \<le> c \<and> c \<le> 32) \<or> c = 133 \<or> c = 160 \<or> c = 5760 \<or>
     (8192 \<le> c \<and> c \<le> 8202) \<or> c = 8232 \<or> c = 8233 \<or> c = 8239 \<or> c = 8287 \<or> c = 12288"

text \<open>\<^verbatim>\<open>s.strip()\<close>: whitespace removed at both ends, the inside untouched.\<close>

definition strip :: "pystr \<Rightarrow> pystr" where
  "strip s = rev (dropWhile isspace (rev (dropWhile isspace s)))"

text \<open>\<^verbatim>\<open>s.startswith(p)\<close>.\<close>

definition startswith :: "pystr \<Rightarrow> pystr \<Rightarrow> bool" where
  "startswith s p = prefix p s"

section \<open>The two regular expressions of \<^verbatim>\<open>extract_code_block\<close>\<close>

text \<open>
  Python's \<^verbatim>\<open>re\<close> is a backtracking matcher. The pieces the two patterns are made of
  are written out as functions on the text that is still to be read; each returns
  \<open>None\<close> where the matcher would fail and backtrack.

  \<open>match_literal l s\<close> reads the literal \<open>l\<close> at the start of \<open>s\<close> and returns what
  follows it.
\<close>

fun match_literal :: "pystr \<Rightarrow> pystr \<Rightarrow> pystr option" where
  "match_literal [] s = Some s"
| "match_literal (p # ps) [] = None"
| "match_literal (p # ps) (c # cs) = (if p = c then match_literal ps cs else None)"

text \<open>
  \<open>lazy_any_until l s\<close> is the group \<^verbatim>\<open>(.*?)\<close> followed by the literal \<open>l\<close>, under
  \<^verbatim>\<open>re.DOTALL\<close>: the group first tries to be empty, and takes one more character (any
  character, a newline too) each time the literal does not follow. The result is the
  text of the group.
\<close>

fun lazy_any_until :: "pystr \<Rightarrow> pystr \<Rightarrow> pystr option" where
  "lazy_any_until l [] = (case match_literal l [] of Some _ \<Rightarrow> Some [] | None \<Rightarrow> None)"
| "lazy_any_until l (c # cs) =
     (case match_literal l (c # cs) of
        Some _ \<Rightarrow> Some []
      | None \<Rightarrow> map_option ((#) c) (lazy_any_until l cs))"

text \<open>
  The tail \<^verbatim>\<open>\n(.*?)```\<close> of the first pattern, and the whole pattern
  \<^verbatim>\<open>```(?:python)?\n(.*?)```\<close> anchored at the start of \<open>s\<close>. The optional group is
  greedy: the matcher first reads \<^verbatim>\<open>python\<close>, and only when the rest fails after it
  does it go back and continue right after the opening fence.
\<close>

definition fence_body :: "pystr \<Rightarrow> pystr option" where
  "fence_body r =
     (case match_literal (py ''\<newline>'') r of
        None \<Rightarrow> None
      | Some b \<Rightarrow> lazy_any_until (py ''```'') b)"

definition fence_at :: "pystr \<Rightarrow> pystr option" where
  "fence_at s =
     (case match_literal (py ''```'') s of
        None \<Rightarrow> None
      | Some r \<Rightarrow>
          (case (case match_literal (py ''python'') r of
                   None \<Rightarrow> None
                 | Some r1 \<Rightarrow> fence_body r1) of
             Some g \<Rightarrow> Some g
           | None \<Rightarrow> fence_body r))"

text \<open>The second pattern, \<^verbatim>\<open><code>(.*?)</code>\<close>, anchored at the start of \<open>s\<close>.\<close>

definition code_at :: "pystr \<Rightarrow> pystr option" where
  "code_at s =
     (case match_literal (py ''<code>'') s of
        None \<Rightarrow> None
      | Some b \<Rightarrow> lazy_any_until (py ''</code>'') b)"

text \<open>
  \<^verbatim>\<open>re.search\<close>: the anchored pattern is tried at every position from left to right,
  the end of the string included, and the first position where it matches wins.
  The result is \<^verbatim>\<open>group(1)\<close> of the match.
\<close>

fun re_search :: "(pystr \<Rightarrow> pystr option) \<Rightarrow> pystr \<Rightarrow> pystr option" where
  "re_search m [] = m []"
| "re_search m (c # cs) = (case m (c # cs) of Some g \<Rightarrow> Some g | None \<Rightarrow> re_search m cs)"

section \<open>\<^verbatim>\<open>extract_code_block\<close>\<close>

definition default_example :: pystr where
  "default_example =
     py ''# No code could be extracted\<newline>def example_function():\<newline>    pass''"

definition extract_code_block :: "pystr \<Rightarrow> pystr" where
  "extract_code_block model_output =
     (case re_search fence_at model_output of
        Some g \<Rightarrow> strip g
      | None \<Rightarrow>
          (case re_search code_at model_output of
             Some g \<Rightarrow> strip g
           | None \<Rightarrow>
               if startswith (strip model_output) (py ''def '') \<or>
                  startswith (strip model_output) (py ''import '')
               then strip model_output
               else default_example))"

section \<open>Exceptions, model clients and the trace of a run\<close>

text \<open>
  The exceptions a model call can raise. The first four are classes of the
  \<^verbatim>\<open>anthropic\<close> package, where \<^verbatim>\<open>RateLimitError\<close>, \<^verbatim>\<open>AuthenticationError\<close> and
  \<^verbatim>\<open>BadRequestError\<close> are subclasses of \<^verbatim>\<open>APIError\<close>; the constructor \<open>APIError\<close> stands
  for every other instance of that class (connection errors, timeouts, other status
  errors). \<open>OtherException\<close> is an exception of a class outside that hierarchy, named by
  its class: what the OpenAI and Google clients raise, a \<^verbatim>\<open>ValueError\<close>, and so on.
  All of them are instances of \<^verbatim>\<open>Exception\<close>.
\<close>

datatype exn =
    RateLimitError
  | AuthenticationError
  | BadRequestError
  | APIError
  | OtherException pystr

fun isinstance_RateLimitError :: "exn \<Rightarrow> bool" where
  "isinstance_RateLimitError RateLimitError = True"
| "isinstance_RateLimitError _ = False"

fun isinstance_APIError :: "exn \<Rightarrow> bool" where
  "isinstance_APIError (OtherException _) = False"
| "isinstance_APIError _ = True"

text \<open>
  The four clients that \<^verbatim>\<open>TechContentGenerator.__init__\<close> creates, and what a run does
  that can be seen from outside, in the order in which it happens: calls of
  \<^verbatim>\<open>invoke\<close> on a client, the sleeps of the retry loop (in seconds), the lines written
  through \<^verbatim>\<open>loguru\<close>, the calls of the two callbacks, and the calls of the two
  formatting libraries. The state of the world is the list of these events so far.
\<close>

datatype client = ResearchModel | CreativeModel | CodeModel | BackupModel

datatype event =
    Invoke client
  | Sleep int
  | LoggerInfo pystr
  | LoggerWarning exn
  | LoggerError exn
  | LogCallback pystr
  | ProgressCallback int pystr
  | BlackFormatStr pystr
  | IsortCode pystr

type_synonym world = "event list"

text \<open>
  A prompt is the pair of a system message and a human message. A client is an external
  service: its behaviour is a parameter. What it answers may change from call to call,
  so the answer is a function of the prompt and of the number of calls the client has
  had before; it is the text of the response, or the exception raised. The backup
  client takes no prompt: \<^verbatim>\<open>generate_with_retry\<close> hands it the \<^verbatim>\<open>prompt\<close>
  argument, which is the empty dictionary at every call site.
\<close>

type_synonym prompt = "pystr \<times> pystr"

record generator =
  research_model :: "prompt \<Rightarrow> nat \<Rightarrow> exn + pystr"
  creative_model :: "prompt \<Rightarrow> nat \<Rightarrow> exn + pystr"
  code_model :: "prompt \<Rightarrow> nat \<Rightarrow> exn + pystr"
  backup_model :: "nat \<Rightarrow> exn + pystr"

text \<open>
  One call of \<^verbatim>\<open>invoke\<close> on client \<open>c\<close>, whose answers are \<open>answers\<close>: the answer is the
  one for the number of calls recorded so far, and the call is recorded.
\<close>

definition invoke :: "client \<Rightarrow> (nat \<Rightarrow> exn + pystr) \<Rightarrow> world \<Rightarrow> (exn + pystr) \<times> world" where
  "invoke c answers w = (answers (count_list w (Invoke c)), w @ [Invoke c])"

section \<open>The retry decorator\<close>

text \<open>
  \<^verbatim>\<open>tenacity.wait_exponential(multiplier, min, max)\<close> with its default base 2, called
  with the number of the attempt that has just failed (attempts are numbered from 1):
  \<^verbatim>\<open>max(max(0, min), min(multiplier * 2 ** (attempt_number - 1), max))\<close>.
\<close>

definition wait_exponential :: "int \<Rightarrow> int \<Rightarrow> int \<Rightarrow> nat \<Rightarrow> int" where
  "wait_exponential multiplier mn mx attempt_number =
     max (max 0 mn) (min (multiplier * 2 ^ (attempt_number - 1)) mx)"

text \<open>\<^verbatim>\<open>tenacity.stop_after_attempt(max_attempt_number)\<close>.\<close>

definition stop_after_attempt :: "nat \<Rightarrow> nat \<Rightarrow> bool" where
  "stop_after_attempt max_attempt_number attempt_number \<longleftrightarrow>
     attempt_number \<ge> max_attempt_number"

text \<open>
  The loop of \<^verbatim>\<open>tenacity.Retrying\<close> as the decorator of \<^verbatim>\<open>generate_with_retry\<close>
  configures it. The function \<open>fn\<close> is called. A result is returned at once. An
  exception is always a reason to retry (the default \<^verbatim>\<open>retry_if_exception_type()\<close>
  accepts every \<^verbatim>\<open>Exception\<close>): when the stop condition holds, the
  \<^verbatim>\<open>retry_error_callback\<close> of the decorator, \<^verbatim>\<open>retry_state.outcome.result()\<close>, raises
  the exception of the last attempt again; otherwise the loop sleeps for the time the
  wait strategy gives and starts the next attempt.
\<close>

function retrying ::
  "nat \<Rightarrow> (nat \<Rightarrow> int) \<Rightarrow> nat \<Rightarrow> (world \<Rightarrow> (exn + 'a) \<times> world) \<Rightarrow> world \<Rightarrow> (exn + 'a) \<times> world"
where
  "retrying max_attempt_number wait attempt_number fn w =
     (case fn w of
        (Inr result, w1) \<Rightarrow> (Inr result, w1)
      | (Inl e, w1) \<Rightarrow>
          if stop_after_attempt max_attempt_number attempt_number then (Inl e, w1)
          else retrying max_attempt_number wait (attempt_number + 1) fn
                 (w1 @ [Sleep (wait attempt_number)]))"
  by pat_completeness auto
termination
  by (relation "measure (\<lambda>(max_attempt_number, wait, attempt_number, fn, w).
        max_attempt_number - attempt_number)")
     (auto simp: stop_after_attempt_def)

declare retrying.simps [simp del]

section \<open>\<^verbatim>\<open>generate_with_retry\<close>\<close>

text \<open>
  The body of \<^verbatim>\<open>generate_with_retry\<close>, which is one attempt of the loop. The argument
  \<open>model\<close> is the chain of the stage with its prompt already in it, \<open>c\<close> says which client
  the chain calls. An exception of the primary that is an \<^verbatim>\<open>anthropic.RateLimitError\<close>
  or an \<^verbatim>\<open>anthropic.APIError\<close> is caught, a warning is logged and the backup client is
  called; an exception of the backup is logged and raised again. Any other exception of
  the primary leaves the body as it is.
\<close>

definition generate_attempt ::
  "generator \<Rightarrow> client \<Rightarrow> (nat \<Rightarrow> exn + pystr) \<Rightarrow> world \<Rightarrow> (exn + pystr) \<times> world"
where
  "generate_attempt self c model w =
     (case invoke c model w of
        (Inr r, w1) \<Rightarrow> (Inr r, w1)
      | (Inl e, w1) \<Rightarrow>
          if isinstance_RateLimitError e \<or> isinstance_APIError e then
            (case invoke BackupModel (backup_model self) (w1 @ [LoggerWarning e]) of
               (Inr r, w2) \<Rightarrow> (Inr r, w2)
             | (Inl backup_error, w2) \<Rightarrow> (Inl backup_error, w2 @ [LoggerError backup_error]))
          else (Inl e, w1))"

text \<open>
  The decorated function: \<^verbatim>\<open>stop_after_attempt(3)\<close>,
  \<^verbatim>\<open>wait_exponential(multiplier=1, min=4, max=10)\<close>, attempts numbered from 1.
\<close>

definition generate_with_retry ::
  "generator \<Rightarrow> client \<Rightarrow> (nat \<Rightarrow> exn + pystr) \<Rightarrow> world \<Rightarrow> (exn + pystr) \<times> world"
where
  "generate_with_retry self c model w =
     retrying 3 (wait_exponential 1 4 10) 1 (generate_attempt self c model) w"

section \<open>\<^verbatim>\<open>generate_technical_content\<close>\<close>

text \<open>
  The helper \<^verbatim>\<open>log_and_progress\<close>. A callback is either given or not; a callback that
  is given records its call. The progress callback is called only when a percentage is
  passed (\<^verbatim>\<open>percent is not None\<close>, so 0 counts), the \<^verbatim>\<open>loguru\<close> line is written always.
\<close>

definition log_and_progress :: "bool \<Rightarrow> bool \<Rightarrow> pystr \<Rightarrow> int option \<Rightarrow> world \<Rightarrow> world" where
  "log_and_progress log_callback progress_callback message percent w =
     (let w1 = (if log_callback then w @ [LogCallback message] else w);
          w2 = (if progress_callback \<and> percent \<noteq> None
                then w1 @ [ProgressCallback (the percent) message] else w1)
      in w2 @ [LoggerInfo message])"

text \<open>
  The library functions \<^verbatim>\<open>format_code\<close> calls are parameters: \<^verbatim>\<open>str.lower\<close>,
  \<^verbatim>\<open>black.format_str\<close> and \<^verbatim>\<open>isort.code\<close>, the last two returning the formatted text or
  raising.
\<close>

record formatters =
  str_lower :: "pystr \<Rightarrow> pystr"
  black_format_str :: "pystr \<Rightarrow> exn + pystr"
  isort_code :: "pystr \<Rightarrow> exn + pystr"

text \<open>
  The nested function \<^verbatim>\<open>format_code\<close>: first the block under \<^verbatim>\<open>try\<close>, where an
  exception of either library ends the block, then the whole function, whose
  \<^verbatim>\<open>except Exception\<close> clause logs the exception and returns the code it was given.
\<close>

definition format_code_try ::
  "formatters \<Rightarrow> pystr \<Rightarrow> pystr \<Rightarrow> world \<Rightarrow> (exn + pystr) \<times> world"
where
  "format_code_try lib code language w =
     (if str_lower lib language = py ''python'' then
        (case black_format_str lib code of
           Inl e \<Rightarrow> (Inl e, w @ [BlackFormatStr code])
         | Inr formatted_code \<Rightarrow>
             (case isort_code lib formatted_code of
                Inl e \<Rightarrow> (Inl e, w @ [BlackFormatStr code, IsortCode formatted_code])
              | Inr formatted_code' \<Rightarrow>
                  (Inr formatted_code', w @ [BlackFormatStr code, IsortCode formatted_code])))
      else (Inr code, w))"

definition format_code ::
  "formatters \<Rightarrow> pystr \<Rightarrow> pystr \<Rightarrow> world \<Rightarrow> (exn + pystr) \<times> world"
where
  "format_code lib code language w =
     (case format_code_try lib code language w of
        (Inr r, w1) \<Rightarrow> (Inr r, w1)
      | (Inl e, w1) \<Rightarrow> (Inr code, w1 @ [LoggerError e]))"

text \<open>The dictionary that \<^verbatim>\<open>generate_technical_content\<close> returns, key by key.\<close>

record code_example_dict =
  original :: pystr
  formatted :: pystr
  language :: pystr
  explanation :: pystr

record report =
  blog_structure :: pystr
  blog_content :: pystr
  code_example :: code_example_dict

text \<open>The prompts of the three stages: the system message and the human message.\<close>

definition research_prompt :: "pystr \<Rightarrow> prompt" where
  "research_prompt topic =
     (py ''You are a technical research expert. Provide comprehensive insights.'',
      py ''Research and analyze the technical aspects of: '' @ topic)"

definition creative_prompt :: "pystr \<Rightarrow> prompt" where
  "creative_prompt research =
     (py ''You are a creative technical writer. Develop engaging content.'',
      py ''Develop a detailed blog post based on this research: '' @ research)"

definition code_prompt :: "pystr \<Rightarrow> prompt" where
  "code_prompt topic =
     (py ''You are an expert programmer. Generate a practical code example related to the topic.'',
      py ''Create a Python code example for this topic: '' @ topic @
      py ''. Provide a complete, runnable code snippet with comments explaining its purpose and functionality.'')"

text \<open>
  The method itself, statement by statement. An exception that leaves
  \<^verbatim>\<open>generate_with_retry\<close> is not caught here, so it leaves the method: that is the
  \<open>Inl\<close> result, and nothing after the failing statement runs. The responses of the
  models are represented by their text.
\<close>

definition generate_technical_content ::
  "generator \<Rightarrow> formatters \<Rightarrow> pystr \<Rightarrow> bool \<Rightarrow> bool \<Rightarrow> world \<Rightarrow> (exn + report) \<times> world"
where
  "generate_technical_content self lib topic progress_callback log_callback w =
     (let w0 = log_and_progress log_callback progress_callback
                 (py ''Starting research phase for topic: '' @ topic) (Some 0) w
      in case generate_with_retry self ResearchModel
                (research_model self (research_prompt topic)) w0 of
           (Inl e, w1) \<Rightarrow> (Inl e, w1)
         | (Inr blog_structure_content, w1) \<Rightarrow>
      let w2 = log_and_progress log_callback progress_callback
                 (py ''Research phase completed'') (Some 25) w1;
          w3 = log_and_progress log_callback progress_callback
                 (py ''Starting creative content development'') (Some 25) w2
      in case generate_with_retry self CreativeModel
                (creative_model self (creative_prompt blog_structure_content)) w3 of
           (Inl e, w4) \<Rightarrow> (Inl e, w4)
         | (Inr full_blog_content, w4) \<Rightarrow>
      let w5 = log_and_progress log_callback progress_callback
                 (py ''Creative content development completed'') (Some 50) w4;
          w6 = log_and_progress log_callback progress_callback
                 (py ''Starting code example generation'') (Some 50) w5
      in case generate_with_retry self CodeModel
                (code_model self (code_prompt topic)) w6 of
           (Inl e, w7) \<Rightarrow> (Inl e, w7)
         | (Inr code_example_text, w7) \<Rightarrow>
      let w8 = log_and_progress log_callback progress_callback
                 (py ''Code example generation completed'') (Some 75) w7;
          w9 = log_and_progress log_callback progress_callback
                 (py ''Extracting and formatting code'') (Some 75) w8;
          extracted_code = extract_code_block code_example_text
      in case format_code lib extracted_code (py ''python'') w9 of
           (Inl e, w10) \<Rightarrow> (Inl e, w10)
         | (Inr formatted_code, w10) \<Rightarrow>
      let w11 = log_and_progress log_callback progress_callback
                  (py ''Content generation completed'') (Some 100) w10
      in (Inr \<lparr> blog_structure = blog_structure_content,
                blog_content = full_blog_content,
                code_example = \<lparr> original = extracted_code,
                                 formatted = formatted_code,
                                 language = py ''python'',
                                 explanation = py ''Code example generated for the given topic'' \<rparr> \<rparr>,
          w11))"

section \<open>Reading a trace\<close>

text \<open>
  Three projections of a trace: the clients that were called, in order; the sleeps of
  the retry loop, in order; and the percentages handed to the progress callback, in
  order.
\<close>

fun invoked :: "event \<Rightarrow> client list" where
  "invoked (Invoke c) = [c]"
| "invoked _ = []"

definition invocations :: "world \<Rightarrow> client list" where
  "invocations w = concat (map invoked w)"

fun slept :: "event \<Rightarrow> int list" where
  "slept (Sleep d) = [d]"
| "slept _ = []"

definition sleeps :: "world \<Rightarrow> int list" where
  "sleeps w = concat (map slept w)"

fun progressed :: "event \<Rightarrow> int list" where
  "progressed (ProgressCallback percent message) = [percent]"
| "progressed _ = []"

definition percents :: "world \<Rightarrow> int list" where
  "percents w = concat (map progressed w)"

section \<open>Example clients and libraries\<close>

text \<open>
  Concrete values for the parameters, used to run the model: clients that answer
  \<^verbatim>\<open>R\<close>, \<^verbatim>\<open>D using R\<close> and a fenced \<^verbatim>\<open>print(1)\<close>, a backup client that raises a
  \<^verbatim>\<open>ValueError\<close> at every call, a formatter that adds the final newline and an import
  sorter that changes nothing. \<open>lower_ascii\<close> is \<^verbatim>\<open>str.lower\<close> on ASCII text. The runs
  below change one field at a time.
\<close>

definition lower_ascii :: "pystr \<Rightarrow> pystr" where
  "lower_ascii s = map (\<lambda>c. if 65 \<le> c \<and> c \<le> 90 then c + 32 else c) s"

definition example_generator :: generator where
  "example_generator =
     \<lparr> research_model = (\<lambda>p k. Inr (py ''R'')),
       creative_model = (\<lambda>p k. Inr (py ''D using R'')),
       code_model = (\<lambda>p k. Inr (py ''```python\<newline>print(1)\<newline>```'')),
       backup_model = (\<lambda>k. Inl (OtherException (py ''ValueError''))) \<rparr>"

definition example_formatters :: formatters where
  "example_formatters =
     \<lparr> str_lower = lower_ascii,
       black_format_str = (\<lambda>code. Inr (code @ py ''\<newline>'')),
       isort_code = (\<lambda>code. Inr code) \<rparr>"

section \<open>Properties of strings and of the search\<close>

lemmas extract_defs = extract_code_block_def fence_at_def fence_body_def code_at_def
  default_example_def strip_def startswith_def py_def isspace_def



lemma default_example_nonempty: "default_example \<noteq> []"
  by (simp add: default_example_def py_def)

lemma all_dropWhile: "(\<forall>x \<in> set (dropWhile P xs). P x) \<longleftrightarrow> (\<forall>x \<in> set xs. P x)"
  by (induction xs) auto

lemma strip_Nil_iff: "strip s = [] \<longleftrightarrow> (\<forall>c \<in> set s. isspace c)"
  by (simp add: strip_def dropWhile_eq_Nil_conv all_dropWhile)

lemma startswith_nonempty: "startswith s (p # ps) \<Longrightarrow> s \<noteq> []"
  by (auto simp: startswith_def)

lemma looks_like_code_nonempty:
  "startswith s (py ''def '') \<or> startswith s (py ''import '') \<Longrightarrow> s \<noteq> []"
  by (auto simp: py_def dest: startswith_nonempty)

lemma match_literal_tick: "c \<noteq> 96 \<Longrightarrow> match_literal (py ''```'') (c # cs) = None"
  by (simp add: py_def)

lemma fence_at_not_tick: "c \<noteq> 96 \<Longrightarrow> fence_at (c # cs) = None"
  by (simp add: fence_at_def match_literal_tick)

text \<open>
  What the pieces of the first pattern accept, stated as equivalences: a literal, the
  lazy group before a literal, the search from left to right, and the fenced pattern
  at one position.
\<close>

lemma match_literal_iff: "match_literal l s = Some r \<longleftrightarrow> s = l @ r"
  by (induction l s rule: match_literal.induct) auto

lemma match_literal_None_iff: "match_literal l s = None \<longleftrightarrow> \<not> prefix l s"
proof -
  have "match_literal l s \<noteq> None \<longleftrightarrow> prefix l s"
    by (auto simp: match_literal_iff prefix_def)
  then show ?thesis by blast
qed

lemma lazy_any_until_iff:
  "lazy_any_until l b = Some g \<longleftrightarrow>
     (\<exists>post. b = g @ l @ post \<and> (\<forall>i<length g. \<not> prefix l (drop i b)))"
proof (induction b arbitrary: g)
  case Nil
  show ?case
    by (cases "match_literal l []") (auto simp: match_literal_iff)
next
  case (Cons c cs)
  show ?case
  proof (cases "match_literal l (c # cs)")
    case (Some r)
    then have pre: "prefix l (c # cs)"
      by (simp add: match_literal_iff prefix_def)
    have "(\<exists>post. c # cs = g @ l @ post \<and> (\<forall>i<length g. \<not> prefix l (drop i (c # cs)))) \<longleftrightarrow> g = []"
    proof
      assume "\<exists>post. c # cs = g @ l @ post \<and> (\<forall>i<length g. \<not> prefix l (drop i (c # cs)))"
      then have "\<forall>i<length g. \<not> prefix l (drop i (c # cs))" by blast
      then show "g = []" using pre by (cases g) force+
    next
      assume "g = []"
      then show "\<exists>post. c # cs = g @ l @ post \<and> (\<forall>i<length g. \<not> prefix l (drop i (c # cs)))"
        using pre by (auto simp: prefix_def)
    qed
    then show ?thesis using Some by auto
  next
    case None
    then have npre: "\<not> prefix l (c # cs)"
      by (simp add: match_literal_None_iff)
    have "(\<exists>post. c # cs = g @ l @ post \<and> (\<forall>i<length g. \<not> prefix l (drop i (c # cs)))) \<longleftrightarrow>
          (\<exists>g'. g = c # g' \<and> (\<exists>post. cs = g' @ l @ post \<and> (\<forall>i<length g'. \<not> prefix l (drop i cs))))"
    proof
      assume "\<exists>post. c # cs = g @ l @ post \<and> (\<forall>i<length g. \<not> prefix l (drop i (c # cs)))"
      then obtain post where p: "c # cs = g @ l @ post"
        and q: "\<forall>i<length g. \<not> prefix l (drop i (c # cs))" by blast
      from p npre have "g \<noteq> []" by (auto simp: prefix_def)
      then obtain g' where g: "g = c # g'" using p by (cases g) auto
      have "\<forall>i<length g'. \<not> prefix l (drop i cs)"
      proof (intro allI impI)
        fix i assume "i < length g'"
        then have "Suc i < length g" by (simp add: g)
        then have "\<not> prefix l (drop (Suc i) (c # cs))" using q by blast
        then show "\<not> prefix l (drop i cs)" by simp
      qed
      then show "\<exists>g'. g = c # g' \<and> (\<exists>post. cs = g' @ l @ post \<and> (\<forall>i<length g'. \<not> prefix l (drop i cs)))"
        using g p by auto
    next
      assume "\<exists>g'. g = c # g' \<and> (\<exists>post. cs = g' @ l @ post \<and> (\<forall>i<length g'. \<not> prefix l (drop i cs)))"
      then obtain g' post where g: "g = c # g'" and p: "cs = g' @ l @ post"
        and q: "\<forall>i<length g'. \<not> prefix l (drop i cs)" by blast
      have "\<forall>i<length g. \<not> prefix l (drop i (c # cs))"
      proof (intro allI impI)
        fix i assume i: "i < length g"
        show "\<not> prefix l (drop i (c # cs))"
        proof (cases i)
          case 0
          then show ?thesis using npre by simp
        next
          case (Suc j)
          then have "j < length g'" using i g by simp
          then show ?thesis using q Suc by simp
        qed
      qed
      then show "\<exists>post. c # cs = g @ l @ post \<and> (\<forall>i<length g. \<not> prefix l (drop i (c # cs)))"
        using g p by auto
    qed
    moreover have "lazy_any_until l (c # cs) = Some g \<longleftrightarrow>
          (\<exists>g'. g = c # g' \<and> lazy_any_until l cs = Some g')"
      using None by (cases "lazy_any_until l cs") auto
    ultimately show ?thesis
      by (simp only: Cons.IH)
  qed
qed

lemma re_search_iff:
  "re_search m s = Some g \<longleftrightarrow>
     (\<exists>pre rest. s = pre @ rest \<and> m rest = Some g \<and>
        (\<forall>u v. pre = u @ v \<and> v \<noteq> [] \<longrightarrow> m (v @ rest) = None))"
proof (induction s)
  case Nil
  show ?case by auto
next
  case (Cons c cs)
  show ?case
  proof (cases "m (c # cs)")
    case (Some g0)
    have "(\<exists>pre rest. c # cs = pre @ rest \<and> m rest = Some g \<and>
        (\<forall>u v. pre = u @ v \<and> v \<noteq> [] \<longrightarrow> m (v @ rest) = None)) \<longleftrightarrow> g = g0"
    proof
      assume "\<exists>pre rest. c # cs = pre @ rest \<and> m rest = Some g \<and>
        (\<forall>u v. pre = u @ v \<and> v \<noteq> [] \<longrightarrow> m (v @ rest) = None)"
      then obtain pre rest where p: "c # cs = pre @ rest" "m rest = Some g"
        and q: "\<forall>u v. pre = u @ v \<and> v \<noteq> [] \<longrightarrow> m (v @ rest) = None" by blast
      show "g = g0"
      proof (cases "pre = []")
        case True
        then show ?thesis using p Some by simp
      next
        case False
        then have "m (pre @ rest) = None" using q by blast
        then show ?thesis using p Some by simp
      qed
    next
      assume "g = g0"
      then have "c # cs = [] @ (c # cs) \<and> m (c # cs) = Some g \<and>
        (\<forall>u v. [] = u @ v \<and> v \<noteq> [] \<longrightarrow> m (v @ (c # cs)) = None)"
        using Some by simp
      then show "\<exists>pre rest. c # cs = pre @ rest \<and> m rest = Some g \<and>
        (\<forall>u v. pre = u @ v \<and> v \<noteq> [] \<longrightarrow> m (v @ rest) = None)"
        by blast
    qed
    then show ?thesis using Some by auto
  next
    case None
    have "(\<exists>pre rest. c # cs = pre @ rest \<and> m rest = Some g \<and>
        (\<forall>u v. pre = u @ v \<and> v \<noteq> [] \<longrightarrow> m (v @ rest) = None)) \<longleftrightarrow>
          (\<exists>pre rest. cs = pre @ rest \<and> m rest = Some g \<and>
        (\<forall>u v. pre = u @ v \<and> v \<noteq> [] \<longrightarrow> m (v @ rest) = None))"
    proof
      assume "\<exists>pre rest. c # cs = pre @ rest \<and> m rest = Some g \<and>
        (\<forall>u v. pre = u @ v \<and> v \<noteq> [] \<longrightarrow> m (v @ rest) = None)"
      then obtain pre rest where p: "c # cs = pre @ rest" "m rest = Some g"
        and q: "\<forall>u v. pre = u @ v \<and> v \<noteq> [] \<longrightarrow> m (v @ rest) = None" by blast
      from p None have "pre \<noteq> []" by auto
      then obtain pre' where pre: "pre = c # pre'" using p by (cases pre) auto
      have "\<forall>u v. pre' = u @ v \<and> v \<noteq> [] \<longrightarrow> m (v @ rest) = None"
      proof (intro allI impI)
        fix u v assume "pre' = u @ v \<and> v \<noteq> []"
        then have "pre = (c # u) @ v \<and> v \<noteq> []" by (simp add: pre)
        then show "m (v @ rest) = None" using q by blast
      qed
      then show "\<exists>pre rest. cs = pre @ rest \<and> m rest = Some g \<and>
        (\<forall>u v. pre = u @ v \<and> v \<noteq> [] \<longrightarrow> m (v @ rest) = None)"
        using p pre by auto
    next
      assume "\<exists>pre rest. cs = pre @ rest \<and> m rest = Some g \<and>
        (\<forall>u v. pre = u @ v \<and> v \<noteq> [] \<longrightarrow> m (v @ rest) = None)"
      then obtain pre rest where p: "cs = pre @ rest" "m rest = Some g"
        and q: "\<forall>u v. pre = u @ v \<and> v \<noteq> [] \<longrightarrow> m (v @ rest) = None" by blast
      have "\<forall>u v. c # pre = u @ v \<and> v \<noteq> [] \<longrightarrow> m (v @ rest) = None"
      proof (intro allI impI)
        fix u v assume a: "c # pre = u @ v \<and> v \<noteq> []"
        show "m (v @ rest) = None"
        proof (cases u)
          case Nil
          then show ?thesis using a p None by auto
        next
          case (Cons x u')
          then have "pre = u' @ v \<and> v \<noteq> []" using a by simp
          then show ?thesis using q by blast
        qed
      qed
      then have "c # cs = (c # pre) @ rest \<and> m rest = Some g \<and>
        (\<forall>u v. c # pre = u @ v \<and> v \<noteq> [] \<longrightarrow> m (v @ rest) = None)"
        using p by simp
      then show "\<exists>pre rest. c # cs = pre @ rest \<and> m rest = Some g \<and>
        (\<forall>u v. pre = u @ v \<and> v \<noteq> [] \<longrightarrow> m (v @ rest) = None)"
        by blast
    qed
    then show ?thesis using None Cons.IH by simp
  qed
qed

lemma fence_body_iff:
  "fence_body r = Some g \<longleftrightarrow>
     (\<exists>post. r = py ''\<newline>'' @ g @ py ''```'' @ post \<and>
        (\<forall>i<length g. \<not> prefix (py ''```'') (drop i (g @ py ''```'' @ post))))"
proof (cases "match_literal (py ''\<newline>'') r")
  case None
  then have "\<not> prefix (py ''\<newline>'') r"
    by (simp add: match_literal_None_iff)
  then show ?thesis
    using None by (auto simp: fence_body_def prefix_def)
next
  case (Some b)
  then have r: "r = py ''\<newline>'' @ b"
    by (simp add: match_literal_iff)
  have "fence_body r = lazy_any_until (py ''```'') b"
    using Some by (simp add: fence_body_def)
  then show ?thesis
    unfolding r by (auto simp: lazy_any_until_iff)
qed

lemma fence_body_python_None: "fence_body (py ''python'' @ r) = None"
  by (simp add: fence_body_def py_def)

lemma fence_at_iff:
  "fence_at s = Some g \<longleftrightarrow>
     (\<exists>tag post. (tag = [] \<or> tag = py ''python'') \<and>
        s = py ''```'' @ tag @ py ''\<newline>'' @ g @ py ''```'' @ post \<and>
        (\<forall>i<length g. \<not> prefix (py ''```'') (drop i (g @ py ''```'' @ post))))"
  (is "?L \<longleftrightarrow> ?R")
proof (cases "match_literal (py ''```'') s")
  case None
  then have "\<not> prefix (py ''```'') s"
    by (simp add: match_literal_None_iff)
  then have "\<not> ?R"
    by (auto simp: prefix_def)
  moreover have "\<not> ?L"
    using None by (simp add: fence_at_def)
  ultimately show ?thesis by blast
next
  case (Some r)
  then have s: "s = py ''```'' @ r"
    by (simp add: match_literal_iff)
  let ?Q = "\<lambda>post. \<forall>i<length g. \<not> prefix (py ''```'') (drop i (g @ py ''```'' @ post))"
  have R: "?R \<longleftrightarrow>
      (\<exists>post. r = py ''\<newline>'' @ g @ py ''```'' @ post \<and> ?Q post) \<or>
      (\<exists>post. r = py ''python'' @ py ''\<newline>'' @ g @ py ''```'' @ post \<and> ?Q post)"
    unfolding s by auto
  show ?thesis
  proof (cases "match_literal (py ''python'') r")
    case None
    then have np: "\<not> prefix (py ''python'') r"
      by (simp add: match_literal_None_iff)
    have "fence_at s = fence_body r"
      using Some None by (simp add: fence_at_def)
    then have "?L \<longleftrightarrow> (\<exists>post. r = py ''\<newline>'' @ g @ py ''```'' @ post \<and> ?Q post)"
      by (simp only: fence_body_iff)
    moreover have "\<not> (\<exists>post. r = py ''python'' @ py ''\<newline>'' @ g @ py ''```'' @ post \<and> ?Q post)"
      using np by (auto simp: prefix_def)
    ultimately show ?thesis
      unfolding R by blast
  next
    case inner: (Some r1)
    then have r: "r = py ''python'' @ r1"
      by (simp add: match_literal_iff)
    have "fence_at s = fence_body r1"
      using Some inner fence_body_python_None [of r1] r
      by (cases "fence_body r1") (simp_all add: fence_at_def)
    then have "?L \<longleftrightarrow> (\<exists>post. r1 = py ''\<newline>'' @ g @ py ''```'' @ post \<and> ?Q post)"
      by (simp only: fence_body_iff)
    moreover have "\<not> (\<exists>post. r = py ''\<newline>'' @ g @ py ''```'' @ post \<and> ?Q post)"
      unfolding r by (simp add: py_def)
    moreover have "(\<exists>post. r = py ''python'' @ py ''\<newline>'' @ g @ py ''```'' @ post \<and> ?Q post)
        \<longleftrightarrow> (\<exists>post. r1 = py ''\<newline>'' @ g @ py ''```'' @ post \<and> ?Q post)"
      unfolding r by simp
    ultimately show ?thesis
      unfolding R by blast
  qed
qed

lemma takeWhile_line: "10 \<notin> set t \<Longrightarrow> takeWhile (\<lambda>c. c \<noteq> (10::nat)) (t @ py ''\<newline>'' @ r) = t"
  by (induction t) (auto simp: py_def)

lemma fence_at_other_tag:
  assumes "10 \<notin> set tag" "tag \<noteq> []" "tag \<noteq> py ''python''"
  shows "fence_at (py ''```'' @ tag @ py ''\<newline>'' @ rest) = None"
proof (rule ccontr)
  assume "fence_at (py ''```'' @ tag @ py ''\<newline>'' @ rest) \<noteq> None"
  then obtain g where "fence_at (py ''```'' @ tag @ py ''\<newline>'' @ rest) = Some g"
    by auto
  then obtain tag' post where t: "tag' = [] \<or> tag' = py ''python''"
    and eq: "py ''```'' @ tag @ py ''\<newline>'' @ rest =
             py ''```'' @ tag' @ py ''\<newline>'' @ g @ py ''```'' @ post"
    unfolding fence_at_iff by blast
  from eq have eq': "tag @ py ''\<newline>'' @ rest = tag' @ py ''\<newline>'' @ (g @ py ''```'' @ post)"
    by simp
  have "10 \<notin> set tag'"
    using t by (auto simp: py_def)
  then have "takeWhile (\<lambda>c. c \<noteq> (10::nat)) (tag' @ py ''\<newline>'' @ (g @ py ''```'' @ post)) = tag'"
    by (rule takeWhile_line)
  moreover have "takeWhile (\<lambda>c. c \<noteq> (10::nat)) (tag @ py ''\<newline>'' @ rest) = tag"
    using assms(1) by (rule takeWhile_line)
  ultimately have "tag = tag'"
    using eq' by simp
  then show False
    using t assms by auto
qed

lemma no_tick_no_fence_before:
  assumes "96 \<notin> set pre"
  shows "\<forall>u v. pre = u @ v \<and> v \<noteq> [] \<longrightarrow> fence_at (v @ rest) = None"
proof (intro allI impI)
  fix u v assume a: "pre = u @ v \<and> v \<noteq> []"
  then obtain c cs where v: "v = c # cs" by (cases v) auto
  then have "c \<noteq> 96" using a assms by auto
  then show "fence_at (v @ rest) = None"
    by (simp add: v fence_at_not_tick)
qed

lemma no_tick_no_fence_inside:
  assumes "96 \<notin> set body"
  shows "\<forall>i<length body. \<not> prefix (py ''```'') (drop i (body @ rest))"
proof (intro allI impI)
  fix i assume i: "i < length body"
  then have "drop i (body @ rest) = body ! i # drop (Suc i) body @ rest"
    by (simp add: Cons_nth_drop_Suc)
  moreover have "body ! i \<noteq> 96"
    using assms i by (metis nth_mem)
  ultimately show "\<not> prefix (py ''```'') (drop i (body @ rest))"
    by (simp add: py_def)
qed

section \<open>Code extraction: results\<close>

text \<open>
  C5, as the code has it. Extraction is a total function: on every string it returns a
  string. When neither pattern is found and the trimmed text starts with neither
  \<^verbatim>\<open>'def '\<close> nor \<^verbatim>\<open>'import '\<close>, the result is the fixed stub, and the stub is not
  empty. The result is the empty string exactly when the first pattern that is found
  (the fenced block, or else the \<^verbatim>\<open><code>\<close> block) has captured whitespace only:
  the code returns the trimmed capture whatever it is.
\<close>

theorem extract_code_block_empty_iff:
  "(re_search fence_at s = None \<and> re_search code_at s = None \<and>
      \<not> startswith (strip s) (py ''def '') \<and> \<not> startswith (strip s) (py ''import '')
      \<longrightarrow> extract_code_block s = default_example) \<and>
   default_example \<noteq> [] \<and>
   (extract_code_block s = [] \<longleftrightarrow>
      (case re_search fence_at s of
         Some g \<Rightarrow> (\<forall>c \<in> set g. isspace c)
       | None \<Rightarrow>
           (case re_search code_at s of
              Some g \<Rightarrow> (\<forall>c \<in> set g. isspace c)
            | None \<Rightarrow> False)))"
proof (intro conjI)
  show "re_search fence_at s = None \<and> re_search code_at s = None \<and>
      \<not> startswith (strip s) (py ''def '') \<and> \<not> startswith (strip s) (py ''import '')
      \<longrightarrow> extract_code_block s = default_example"
    by (simp add: extract_code_block_def)
  show "default_example \<noteq> []"
    by (rule default_example_nonempty)
  show "extract_code_block s = [] \<longleftrightarrow>
      (case re_search fence_at s of
         Some g \<Rightarrow> (\<forall>c \<in> set g. isspace c)
       | None \<Rightarrow>
           (case re_search code_at s of
              Some g \<Rightarrow> (\<forall>c \<in> set g. isspace c)
            | None \<Rightarrow> False))"
    using looks_like_code_nonempty [of "strip s"]
    by (auto simp: extract_code_block_def strip_Nil_iff [symmetric] default_example_nonempty
        split: option.splits)
qed

text \<open>
  The theorem at \<^verbatim>\<open>"no code here"\<close>: nothing is found, so the stub is returned.
\<close>

theorem extract_code_block_empty_iff_witness:
  "extract_code_block (py ''no code here'') = default_example \<and> default_example \<noteq> []"
proof -
  have "re_search fence_at (py ''no code here'') = None"
    by (simp add: extract_defs)
  moreover have "re_search code_at (py ''no code here'') = None"
    by (simp add: extract_defs)
  moreover have "\<not> startswith (strip (py ''no code here'')) (py ''def '')"
    by (simp add: extract_defs)
  moreover have "\<not> startswith (strip (py ''no code here'')) (py ''import '')"
    by (simp add: extract_defs)
  ultimately show ?thesis
    using extract_code_block_empty_iff [of "py ''no code here''"] by blast
qed

text \<open>
  C5 as stated fails: a fenced block with nothing between the fences is a match of the
  first pattern, and its trimmed capture, the empty string, is what the code returns.
\<close>

theorem extract_code_block_empty_fence:
  "extract_code_block (py ''```\<newline>```'') = []"
  by (simp add: extract_defs)

text \<open>
  C6, as the code has it. The heuristics are tried in the order fenced block,
  \<^verbatim>\<open><code>\<close> block, leading \<^verbatim>\<open>'def '\<close> or \<^verbatim>\<open>'import '\<close>, stub, and the first that
  applies decides. The fenced pattern matches at a position exactly when the text there
  is three backticks, then nothing or the tag \<^verbatim>\<open>python\<close>, then a newline, then the
  capture, then three backticks, where the capture ends at the first three backticks
  after the newline (the shortest span; it may hold newlines). The search takes the
  leftmost position where the pattern matches, and the result is the trimmed capture.
  No other tag is accepted: three backticks followed by any other non-empty tag without
  a newline, and a newline, do not match at that position. The backticks that close
  such a block can then be taken for an opening fence: a \<^verbatim>\<open>bash\<close> block followed at
  once by a \<^verbatim>\<open>python\<close> block gives the empty text between the two.
\<close>

theorem extract_code_block_fenced:
  "(re_search fence_at s = Some g \<longleftrightarrow>
      (\<exists>pre tag post.
         s = pre @ py ''```'' @ tag @ py ''\<newline>'' @ g @ py ''```'' @ post \<and>
         (tag = [] \<or> tag = py ''python'') \<and>
         (\<forall>i<length g. \<not> prefix (py ''```'') (drop i (g @ py ''```'' @ post))) \<and>
         (\<forall>u v. pre = u @ v \<and> v \<noteq> [] \<longrightarrow>
            fence_at (v @ py ''```'' @ tag @ py ''\<newline>'' @ g @ py ''```'' @ post) = None))) \<and>
   (fence_at r = Some g \<longleftrightarrow>
      (\<exists>tag post.
         (tag = [] \<or> tag = py ''python'') \<and>
         r = py ''```'' @ tag @ py ''\<newline>'' @ g @ py ''```'' @ post \<and>
         (\<forall>i<length g. \<not> prefix (py ''```'') (drop i (g @ py ''```'' @ post))))) \<and>
   (10 \<notin> set name \<and> name \<noteq> [] \<and> name \<noteq> py ''python'' \<longrightarrow>
      fence_at (py ''```'' @ name @ py ''\<newline>'' @ rest) = None) \<and>
   (re_search fence_at s = Some g \<longrightarrow> extract_code_block s = strip g) \<and>
   (re_search fence_at s = None \<and> re_search code_at s = Some g \<longrightarrow>
      extract_code_block s = strip g) \<and>
   (re_search fence_at s = None \<and> re_search code_at s = None \<and>
      (startswith (strip s) (py ''def '') \<or> startswith (strip s) (py ''import '')) \<longrightarrow>
      extract_code_block s = strip s) \<and>
   (re_search fence_at s = None \<and> re_search code_at s = None \<and>
      \<not> startswith (strip s) (py ''def '') \<and> \<not> startswith (strip s) (py ''import '') \<longrightarrow>
      extract_code_block s = default_example) \<and>
   extract_code_block (py ''```bash\<newline>ls\<newline>```\<newline>```python\<newline>x = 1\<newline>```'') = []"
proof (intro conjI)
  show "re_search fence_at s = Some g \<longleftrightarrow>
      (\<exists>pre tag post.
         s = pre @ py ''```'' @ tag @ py ''\<newline>'' @ g @ py ''```'' @ post \<and>
         (tag = [] \<or> tag = py ''python'') \<and>
         (\<forall>i<length g. \<not> prefix (py ''```'') (drop i (g @ py ''```'' @ post))) \<and>
         (\<forall>u v. pre = u @ v \<and> v \<noteq> [] \<longrightarrow>
            fence_at (v @ py ''```'' @ tag @ py ''\<newline>'' @ g @ py ''```'' @ post) = None))"
    (is "?L \<longleftrightarrow> ?R")
  proof
    assume ?L
    then obtain pre rest where s: "s = pre @ rest" and m: "fence_at rest = Some g"
      and left: "\<forall>u v. pre = u @ v \<and> v \<noteq> [] \<longrightarrow> fence_at (v @ rest) = None"
      unfolding re_search_iff by blast
    from m obtain tag post where t: "tag = [] \<or> tag = py ''python''"
      and rest: "rest = py ''```'' @ tag @ py ''\<newline>'' @ g @ py ''```'' @ post"
      and short: "\<forall>i<length g. \<not> prefix (py ''```'') (drop i (g @ py ''```'' @ post))"
      unfolding fence_at_iff by blast
    have s': "s = pre @ py ''```'' @ tag @ py ''\<newline>'' @ g @ py ''```'' @ post"
      using s rest by simp
    have left': "\<forall>u v. pre = u @ v \<and> v \<noteq> [] \<longrightarrow>
            fence_at (v @ py ''```'' @ tag @ py ''\<newline>'' @ g @ py ''```'' @ post) = None"
      using left unfolding rest .
    show ?R
      using s' t short left'
      by - (rule exI [of _ pre], rule exI [of _ tag], rule exI [of _ post], intro conjI,
            assumption+)
  next
    assume ?R
    then obtain pre tag post where
      s: "s = pre @ py ''```'' @ tag @ py ''\<newline>'' @ g @ py ''```'' @ post"
      and t: "tag = [] \<or> tag = py ''python''"
      and short: "\<forall>i<length g. \<not> prefix (py ''```'') (drop i (g @ py ''```'' @ post))"
      and left: "\<forall>u v. pre = u @ v \<and> v \<noteq> [] \<longrightarrow>
            fence_at (v @ py ''```'' @ tag @ py ''\<newline>'' @ g @ py ''```'' @ post) = None"
      by blast
    let ?rest = "py ''```'' @ tag @ py ''\<newline>'' @ g @ py ''```'' @ post"
    have "\<exists>tag' post'. (tag' = [] \<or> tag' = py ''python'') \<and>
        ?rest = py ''```'' @ tag' @ py ''\<newline>'' @ g @ py ''```'' @ post' \<and>
        (\<forall>i<length g. \<not> prefix (py ''```'') (drop i (g @ py ''```'' @ post')))"
      using t refl [of ?rest] short
      by - (rule exI [of _ tag], rule exI [of _ post], intro conjI, assumption+)
    then have m: "fence_at ?rest = Some g"
      by (simp only: fence_at_iff)
    have "\<exists>pre' rest'. s = pre' @ rest' \<and> fence_at rest' = Some g \<and>
        (\<forall>u v. pre' = u @ v \<and> v \<noteq> [] \<longrightarrow> fence_at (v @ rest') = None)"
      using s m left
      by - (rule exI [of _ pre], rule exI [of _ ?rest], intro conjI, assumption+)
    then show ?L
      by (simp only: re_search_iff)
  qed
  show "fence_at r = Some g \<longleftrightarrow>
      (\<exists>tag post.
         (tag = [] \<or> tag = py ''python'') \<and>
         r = py ''```'' @ tag @ py ''\<newline>'' @ g @ py ''```'' @ post \<and>
         (\<forall>i<length g. \<not> prefix (py ''```'') (drop i (g @ py ''```'' @ post))))"
    by (rule fence_at_iff)
  show "10 \<notin> set name \<and> name \<noteq> [] \<and> name \<noteq> py ''python'' \<longrightarrow>
      fence_at (py ''```'' @ name @ py ''\<newline>'' @ rest) = None"
  proof
    assume "10 \<notin> set name \<and> name \<noteq> [] \<and> name \<noteq> py ''python''"
    then show "fence_at (py ''```'' @ name @ py ''\<newline>'' @ rest) = None"
      by (intro fence_at_other_tag) simp_all
  qed
  show "extract_code_block (py ''```bash\<newline>ls\<newline>```\<newline>```python\<newline>x = 1\<newline>```'') = []"
    by (simp add: extract_defs)
qed (simp_all add: extract_code_block_def)

text \<open>
  The theorem at the text the specification gives: \<^verbatim>\<open>"Here:\n"\<close> before the fence,
  the tag \<^verbatim>\<open>python\<close>, the capture \<^verbatim>\<open>"def f():\n    return 1\n"\<close>, and \<^verbatim>\<open>"\nend"\<close>
  after the closing fence.
\<close>

theorem extract_code_block_fenced_witness:
  "extract_code_block (py ''Here:\<newline>```python\<newline>def f():\<newline>    return 1\<newline>```\<newline>end'')
     = py ''def f():\<newline>    return 1''"
proof -
  let ?pre = "py ''Here:\<newline>''"
  let ?body = "py ''def f():\<newline>    return 1\<newline>''"
  let ?post = "py ''\<newline>end''"
  let ?s = "?pre @ py ''```'' @ py ''python'' @ py ''\<newline>'' @ ?body @ py ''```'' @ ?post"
  have pre: "96 \<notin> set ?pre" and body: "96 \<notin> set ?body"
    by (simp_all add: py_def)
  have inside: "\<forall>i<length ?body. \<not> prefix (py ''```'') (drop i (?body @ py ''```'' @ ?post))"
    using body by (rule no_tick_no_fence_inside)
  have before: "\<forall>u v. ?pre = u @ v \<and> v \<noteq> [] \<longrightarrow>
      fence_at (v @ py ''```'' @ py ''python'' @ py ''\<newline>'' @ ?body @ py ''```'' @ ?post) = None"
    using pre by (rule no_tick_no_fence_before)
  have tag: "py ''python'' = [] \<or> py ''python'' = py ''python''"
    by simp
  have "\<exists>pre tag post.
         ?s = pre @ py ''```'' @ tag @ py ''\<newline>'' @ ?body @ py ''```'' @ post \<and>
         (tag = [] \<or> tag = py ''python'') \<and>
         (\<forall>i<length ?body. \<not> prefix (py ''```'') (drop i (?body @ py ''```'' @ post))) \<and>
         (\<forall>u v. pre = u @ v \<and> v \<noteq> [] \<longrightarrow>
            fence_at (v @ py ''```'' @ tag @ py ''\<newline>'' @ ?body @ py ''```'' @ post) = None)"
    using refl [of ?s] tag inside before
    by - (rule exI [of _ ?pre], rule exI [of _ "py ''python''"], rule exI [of _ ?post],
          intro conjI, assumption+)
  then have found: "re_search fence_at ?s = Some ?body"
    using extract_code_block_fenced [of ?s ?body, THEN conjunct1] by (rule iffD2 [rotated])
  have "extract_code_block ?s = strip ?body"
    using extract_code_block_fenced [of ?s ?body, THEN conjunct2, THEN conjunct2, THEN conjunct2,
        THEN conjunct1] found by (rule mp)
  then show ?thesis
    by (simp add: py_def strip_def isspace_def)
qed

text \<open>
  C6 as stated fails for a language name other than \<^verbatim>\<open>python\<close>: the block tagged
  \<^verbatim>\<open>js\<close> is not found by the first pattern (nor by any other), and the stub is returned
  in place of its body.
\<close>

theorem extract_code_block_js_fence:
  "re_search fence_at (py ''```js\<newline>x\<newline>```'') = None \<and>
   extract_code_block (py ''```js\<newline>x\<newline>```'') = default_example"
  by (simp add: extract_defs)


section \<open>Properties of the retry loop\<close>

lemma invocations_append [simp]: "invocations (w @ v) = invocations w @ invocations v"
  by (simp add: invocations_def)

lemma sleeps_append [simp]: "sleeps (w @ v) = sleeps w @ sleeps v"
  by (simp add: sleeps_def)

lemma invocations_simps [simp]:
  "invocations [] = []"
  "invocations (ev # w) = invoked ev @ invocations w"
  by (simp_all add: invocations_def)

lemma sleeps_simps [simp]:
  "sleeps [] = []"
  "sleeps (ev # w) = slept ev @ sleeps w"
  by (simp_all add: sleeps_def)

lemma retrying_Inr:
  "fn w = (Inr r, w1) \<Longrightarrow> retrying n wt a fn w = (Inr r, w1)"
  by (simp add: retrying.simps)

lemma retrying_stop:
  "fn w = (Inl e, w1) \<Longrightarrow> n \<le> a \<Longrightarrow> retrying n wt a fn w = (Inl e, w1)"
  by (simp add: retrying.simps stop_after_attempt_def)

lemma retrying_again:
  "fn w = (Inl e, w1) \<Longrightarrow> a < n \<Longrightarrow>
   retrying n wt a fn w = retrying n wt (Suc a) fn (w1 @ [Sleep (wt a)])"
  by (subst retrying.simps) (simp add: stop_after_attempt_def)

lemma attempt_both_fail:
  assumes "model (count_list w (Invoke c)) = Inl pe"
    and "isinstance_RateLimitError pe \<or> isinstance_APIError pe"
    and "backup_model self (count_list w (Invoke BackupModel)) = Inl be"
    and "c \<noteq> BackupModel"
  shows "generate_attempt self c model w =
           (Inl be, w @ [Invoke c, LoggerWarning pe, Invoke BackupModel, LoggerError be])"
  using assms by (simp add: generate_attempt_def invoke_def)

lemma attempt_backup_answers:
  assumes "model (count_list w (Invoke c)) = Inl pe"
    and "isinstance_RateLimitError pe \<or> isinstance_APIError pe"
    and "backup_model self (count_list w (Invoke BackupModel)) = Inr t"
    and "c \<noteq> BackupModel"
  shows "generate_attempt self c model w =
           (Inr t, w @ [Invoke c, LoggerWarning pe, Invoke BackupModel])"
  using assms by (simp add: generate_attempt_def invoke_def)

lemma attempt_uncaught:
  assumes "model (count_list w (Invoke c)) = Inl pe"
    and "\<not> isinstance_RateLimitError pe" and "\<not> isinstance_APIError pe"
  shows "generate_attempt self c model w = (Inl pe, w @ [Invoke c])"
  using assms by (simp add: generate_attempt_def invoke_def)

lemma retrying_both_fail:
  assumes primary: "\<And>k. \<exists>e. model k = Inl e \<and> (isinstance_RateLimitError e \<or> isinstance_APIError e)"
    and backup: "\<And>k. \<exists>e. backup_model self k = Inl e"
    and c: "c \<noteq> BackupModel"
  shows "\<exists>w'. retrying n wt a (generate_attempt self c model) w =
             (backup_model self (count_list w (Invoke BackupModel) + (n - a)), w') \<and>
           invocations w' = invocations w @ concat (replicate (Suc (n - a)) [c, BackupModel]) \<and>
           sleeps w' = sleeps w @ map wt [a ..< n]"
proof (induction "n - a" arbitrary: a w)
  case 0
  obtain pe where pe: "model (count_list w (Invoke c)) = Inl pe"
      "isinstance_RateLimitError pe \<or> isinstance_APIError pe"
    using primary by blast
  obtain be where be: "backup_model self (count_list w (Invoke BackupModel)) = Inl be"
    using backup by blast
  have att: "generate_attempt self c model w =
      (Inl be, w @ [Invoke c, LoggerWarning pe, Invoke BackupModel, LoggerError be])"
    using pe be c by (rule attempt_both_fail)
  from 0 have "n \<le> a" by simp
  then show ?case
    using att be by (simp add: retrying_stop)
next
  case (Suc d)
  obtain pe where pe: "model (count_list w (Invoke c)) = Inl pe"
      "isinstance_RateLimitError pe \<or> isinstance_APIError pe"
    using primary by blast
  obtain be where be: "backup_model self (count_list w (Invoke BackupModel)) = Inl be"
    using backup by blast
  let ?w1 = "w @ [Invoke c, LoggerWarning pe, Invoke BackupModel, LoggerError be]"
  from Suc have lt: "a < n" and d: "d = n - Suc a" by simp_all
  have att: "generate_attempt self c model w = (Inl be, ?w1)"
    using pe be c by (rule attempt_both_fail)
  have step: "retrying n wt a (generate_attempt self c model) w =
              retrying n wt (Suc a) (generate_attempt self c model) (?w1 @ [Sleep (wt a)])"
    using att lt by (rule retrying_again)
  obtain w' where w':
    "retrying n wt (Suc a) (generate_attempt self c model) (?w1 @ [Sleep (wt a)]) =
       (backup_model self (count_list (?w1 @ [Sleep (wt a)]) (Invoke BackupModel) + (n - Suc a)), w')"
    "invocations w' = invocations (?w1 @ [Sleep (wt a)]) @
       concat (replicate (Suc (n - Suc a)) [c, BackupModel])"
    "sleeps w' = sleeps (?w1 @ [Sleep (wt a)]) @ map wt [Suc a ..< n]"
    using Suc.hyps(1) [OF d] by blast
  have idx: "count_list (?w1 @ [Sleep (wt a)]) (Invoke BackupModel) + (n - Suc a)
             = count_list w (Invoke BackupModel) + (n - a)"
    using lt c by simp
  have rep: "Suc (n - a) = Suc (Suc (n - Suc a))"
    using lt by simp
  have "retrying n wt a (generate_attempt self c model) w =
          (backup_model self (count_list w (Invoke BackupModel) + (n - a)), w')"
    by (simp only: step w'(1) idx)
  moreover have "invocations w' = invocations w @ concat (replicate (Suc (n - a)) [c, BackupModel])"
    unfolding w'(2) rep by simp
  moreover have "sleeps w' = sleeps w @ map wt [a ..< n]"
    unfolding w'(3) using lt by (simp add: upt_conv_Cons)
  ultimately show ?case
    by blast
qed

lemma retrying_uncaught:
  assumes primary: "\<And>k. \<exists>e. model k = Inl e \<and> \<not> isinstance_RateLimitError e \<and> \<not> isinstance_APIError e"
  shows "\<exists>w'. retrying n wt a (generate_attempt self c model) w =
             (model (count_list w (Invoke c) + (n - a)), w') \<and>
           invocations w' = invocations w @ replicate (Suc (n - a)) c \<and>
           sleeps w' = sleeps w @ map wt [a ..< n]"
proof (induction "n - a" arbitrary: a w)
  case 0
  obtain pe where pe: "model (count_list w (Invoke c)) = Inl pe"
      "\<not> isinstance_RateLimitError pe" "\<not> isinstance_APIError pe"
    using primary by blast
  have att: "generate_attempt self c model w = (Inl pe, w @ [Invoke c])"
    using pe by (rule attempt_uncaught)
  from 0 have "n \<le> a" by simp
  then show ?case
    using att pe(1) by (simp add: retrying_stop)
next
  case (Suc d)
  obtain pe where pe: "model (count_list w (Invoke c)) = Inl pe"
      "\<not> isinstance_RateLimitError pe" "\<not> isinstance_APIError pe"
    using primary by blast
  let ?w1 = "w @ [Invoke c]"
  from Suc have lt: "a < n" and d: "d = n - Suc a" by simp_all
  have att: "generate_attempt self c model w = (Inl pe, ?w1)"
    using pe by (rule attempt_uncaught)
  have step: "retrying n wt a (generate_attempt self c model) w =
              retrying n wt (Suc a) (generate_attempt self c model) (?w1 @ [Sleep (wt a)])"
    using att lt by (rule retrying_again)
  obtain w' where w':
    "retrying n wt (Suc a) (generate_attempt self c model) (?w1 @ [Sleep (wt a)]) =
       (model (count_list (?w1 @ [Sleep (wt a)]) (Invoke c) + (n - Suc a)), w')"
    "invocations w' = invocations (?w1 @ [Sleep (wt a)]) @ replicate (Suc (n - Suc a)) c"
    "sleeps w' = sleeps (?w1 @ [Sleep (wt a)]) @ map wt [Suc a ..< n]"
    using Suc.hyps(1) [OF d] by blast
  have idx: "count_list (?w1 @ [Sleep (wt a)]) (Invoke c) + (n - Suc a)
             = count_list w (Invoke c) + (n - a)"
    using lt by simp
  have rep: "Suc (n - a) = Suc (Suc (n - Suc a))"
    using lt by simp
  have "retrying n wt a (generate_attempt self c model) w =
          (model (count_list w (Invoke c) + (n - a)), w')"
    by (simp only: step w'(1) idx)
  moreover have "invocations w' = invocations w @ replicate (Suc (n - a)) c"
    unfolding w'(2) rep by (simp add: replicate_append_same)
  moreover have "sleeps w' = sleeps w @ map wt [a ..< n]"
    unfolding w'(3) using lt by (simp add: upt_conv_Cons)
  ultimately show ?case
    by blast
qed

text \<open>Facts for running the loop on concrete clients, step by step.\<close>

lemmas retry_eval = generate_with_retry_def retrying_Inr retrying_again retrying_stop
  generate_attempt_def invoke_def wait_exponential_def

section \<open>What a call adds to the trace\<close>

lemma percents_append [simp]: "percents (w @ v) = percents w @ percents v"
  by (simp add: percents_def)

lemma percents_simps [simp]:
  "percents [] = []"
  "percents (ev # w) = progressed ev @ percents w"
  by (simp_all add: percents_def)

lemma generate_attempt_appends:
  "\<exists>added. snd (generate_attempt self c model w) = w @ added \<and>
     set added \<subseteq> {Invoke c, Invoke BackupModel} \<union> range LoggerWarning \<union> range LoggerError"
  by (auto simp: generate_attempt_def invoke_def split: sum.splits)

lemma retrying_appends:
  assumes fn: "\<And>w. \<exists>added. snd (fn w) = w @ added \<and> set added \<subseteq> A"
  shows "\<exists>added. snd (retrying n wt a fn w) = w @ added \<and> set added \<subseteq> A \<union> range Sleep"
proof (induction "n - a" arbitrary: a w)
  case 0
  obtain r w1 where r: "fn w = (r, w1)" by (cases "fn w")
  obtain added where added: "w1 = w @ added" "set added \<subseteq> A"
    using fn [of w] r by auto
  from 0 have "n \<le> a" by simp
  then have "retrying n wt a fn w = (r, w1)"
    using r by (cases r) (simp_all add: retrying_Inr retrying_stop)
  then show ?case using added by auto
next
  case (Suc d)
  obtain r w1 where r: "fn w = (r, w1)" by (cases "fn w")
  obtain added where added: "w1 = w @ added" "set added \<subseteq> A"
    using fn [of w] r by auto
  from Suc have lt: "a < n" and d: "d = n - Suc a" by simp_all
  show ?case
  proof (cases r)
    case (Inr t)
    then have "retrying n wt a fn w = (r, w1)"
      using r by (simp add: retrying_Inr)
    then show ?thesis using added by auto
  next
    case (Inl e)
    then have step: "retrying n wt a fn w = retrying n wt (Suc a) fn (w1 @ [Sleep (wt a)])"
      using r lt by (simp add: retrying_again)
    obtain more where more:
      "snd (retrying n wt (Suc a) fn (w1 @ [Sleep (wt a)])) = (w1 @ [Sleep (wt a)]) @ more"
      "set more \<subseteq> A \<union> range Sleep"
      using Suc.hyps(1) [OF d] by blast
    have "snd (retrying n wt a fn w) = w @ (added @ Sleep (wt a) # more)"
      using step more(1) added(1) by simp
    moreover have "set (added @ Sleep (wt a) # more) \<subseteq> A \<union> range Sleep"
      using added(2) more(2) by auto
    ultimately show ?thesis by blast
  qed
qed

lemma generate_with_retry_appends:
  "\<exists>added. snd (generate_with_retry self c model w) = w @ added \<and>
     set added \<subseteq> {Invoke c, Invoke BackupModel} \<union> range LoggerWarning \<union> range LoggerError
        \<union> range Sleep"
  unfolding generate_with_retry_def
  by (rule retrying_appends) (rule generate_attempt_appends)

lemma percents_quiet: "(\<And>ev. ev \<in> set w \<Longrightarrow> progressed ev = []) \<Longrightarrow> percents w = []"
  by (induction w) auto

lemma generate_with_retry_percents:
  "percents (snd (generate_with_retry self c model w)) = percents w"
proof -
  obtain added where added: "snd (generate_with_retry self c model w) = w @ added"
    "set added \<subseteq> {Invoke c, Invoke BackupModel} \<union> range LoggerWarning \<union> range LoggerError
        \<union> range Sleep"
    using generate_with_retry_appends by blast
  have "percents added = []"
    using added(2) by (intro percents_quiet) auto
  then show ?thesis by (simp add: added(1))
qed

lemma generate_with_retry_other_client:
  assumes "d \<noteq> c" "d \<noteq> BackupModel"
  shows "count_list (snd (generate_with_retry self c model w)) (Invoke d) = count_list w (Invoke d)"
proof -
  obtain added where added: "snd (generate_with_retry self c model w) = w @ added"
    "set added \<subseteq> {Invoke c, Invoke BackupModel} \<union> range LoggerWarning \<union> range LoggerError
        \<union> range Sleep"
    using generate_with_retry_appends by blast
  have "Invoke d \<notin> set added"
    using added(2) assms by auto
  then have "count_list added (Invoke d) = 0"
    by (simp add: count_list_0_iff)
  then show ?thesis by (simp add: added(1))
qed

lemma log_and_progress_append:
  "log_and_progress log_callback progress_callback message (Some percent) w =
     w @ (if log_callback then [LogCallback message] else []) @
         (if progress_callback then [ProgressCallback percent message] else []) @
         [LoggerInfo message]"
  by (simp add: log_and_progress_def)

lemma log_and_progress_percents:
  "percents (log_and_progress log_callback progress_callback message (Some percent) w) =
     percents w @ (if progress_callback then [percent] else [])"
  by (simp add: log_and_progress_append)

lemma log_and_progress_count_Invoke:
  "count_list (log_and_progress log_callback progress_callback message (Some percent) w) (Invoke d)
     = count_list w (Invoke d)"
  by (simp add: log_and_progress_append)

lemma format_code_returns:
  "\<exists>r w'. format_code lib code lang w = (Inr r, w')"
  by (cases "format_code_try lib code lang w")
     (auto simp: format_code_def split: sum.splits)

lemma format_code_percents:
  "percents (snd (format_code lib code lang w)) = percents w"
  by (auto simp: format_code_def format_code_try_def split: sum.splits)

section \<open>Backoff: results\<close>

lemma sleeps_quiet: "(\<And>ev. ev \<in> set w \<Longrightarrow> slept ev = []) \<Longrightarrow> sleeps w = []"
  by (induction w) auto

lemma generate_attempt_sleeps:
  "sleeps (snd (generate_attempt self c model w)) = sleeps w"
proof -
  obtain added where added: "snd (generate_attempt self c model w) = w @ added"
    "set added \<subseteq> {Invoke c, Invoke BackupModel} \<union> range LoggerWarning \<union> range LoggerError"
    using generate_attempt_appends by blast
  have "sleeps added = []"
    using added(2) by (intro sleeps_quiet) auto
  then show ?thesis by (simp add: added(1))
qed

lemma retrying_sleeps:
  assumes fn: "\<And>w. sleeps (snd (fn w)) = sleeps w"
  shows "\<exists>k\<le>n - a. sleeps (snd (retrying n wt a fn w)) = sleeps w @ map wt [a ..< a + k]"
proof (induction "n - a" arbitrary: a w)
  case 0
  obtain r w1 where r: "fn w = (r, w1)" by (cases "fn w")
  from 0 have "n \<le> a" by simp
  then have "retrying n wt a fn w = (r, w1)"
    using r by (cases r) (simp_all add: retrying_Inr retrying_stop)
  then have "sleeps (snd (retrying n wt a fn w)) = sleeps w @ map wt [a ..< a + 0]"
    using fn [of w] r by simp
  then show ?case by blast
next
  case (Suc d)
  obtain r w1 where r: "fn w = (r, w1)" by (cases "fn w")
  have w1: "sleeps w1 = sleeps w"
    using fn [of w] r by simp
  from Suc have lt: "a < n" and d: "d = n - Suc a" by simp_all
  show ?case
  proof (cases r)
    case (Inr t)
    then have "retrying n wt a fn w = (r, w1)"
      using r by (simp add: retrying_Inr)
    then have "sleeps (snd (retrying n wt a fn w)) = sleeps w @ map wt [a ..< a + 0]"
      using w1 by simp
    then show ?thesis by blast
  next
    case (Inl e)
    then have step: "retrying n wt a fn w = retrying n wt (Suc a) fn (w1 @ [Sleep (wt a)])"
      using r lt by (simp add: retrying_again)
    obtain k where k: "k \<le> n - Suc a"
      "sleeps (snd (retrying n wt (Suc a) fn (w1 @ [Sleep (wt a)]))) =
         sleeps (w1 @ [Sleep (wt a)]) @ map wt [Suc a ..< Suc a + k]"
      using Suc.hyps(1) [OF d] by blast
    have upt: "[a ..< a + Suc k] = a # [Suc a ..< Suc a + k]"
      using upt_conv_Cons [of a "a + Suc k"] by simp
    have "sleeps (snd (retrying n wt a fn w)) = sleeps w @ map wt [a ..< a + Suc k]"
      unfolding step k(2) upt by (simp add: w1)
    moreover have "Suc k \<le> n - a"
      using k(1) lt by simp
    ultimately show ?thesis by blast
  qed
qed

lemma wait_exponential_configured:
  "wait_exponential 1 4 10 (Suc i) = min 10 (max 4 (1 * 2 ^ i))"
  by (simp add: wait_exponential_def min_def max_def)

lemma map_upt_from_1: "map f [1 ..< 1 + k] = map (\<lambda>i. f (Suc i)) [0 ..< k]"
proof -
  have "[1 ..< 1 + k] = map Suc [0 ..< k]"
    by (simp add: map_Suc_upt)
  then show ?thesis by (simp add: comp_def)
qed

lemma retrying_always_fails_sleeps:
  assumes fn: "\<And>w. \<exists>e w1. fn w = (Inl e, w1) \<and> sleeps w1 = sleeps w"
  shows "sleeps (snd (retrying n wt a fn w)) = sleeps w @ map wt [a ..< n]"
proof (induction "n - a" arbitrary: a w)
  case 0
  obtain e w1 where r: "fn w = (Inl e, w1)" "sleeps w1 = sleeps w"
    using fn by blast
  from 0 have "n \<le> a" by simp
  then show ?case
    using r by (simp add: retrying_stop)
next
  case (Suc d)
  obtain e w1 where r: "fn w = (Inl e, w1)" "sleeps w1 = sleeps w"
    using fn by blast
  from Suc have lt: "a < n" and d: "d = n - Suc a" by simp_all
  have step: "retrying n wt a fn w = retrying n wt (Suc a) fn (w1 @ [Sleep (wt a)])"
    using r(1) lt by (rule retrying_again)
  have upt: "[a ..< n] = a # [Suc a ..< n]"
    using lt by (simp add: upt_conv_Cons)
  show ?case
    unfolding step Suc.hyps(1) [OF d] upt by (simp add: r(2))
qed

lemma generate_with_retry_unrolled:
  "generate_with_retry self c model w =
     (case generate_attempt self c model w of
        (Inr r, w1) \<Rightarrow> (Inr r, w1)
      | (Inl e1, w1) \<Rightarrow>
          (case generate_attempt self c model (w1 @ [Sleep (min 10 (max 4 (1 * 2 ^ 0)))]) of
             (Inr r, w2) \<Rightarrow> (Inr r, w2)
           | (Inl e2, w2) \<Rightarrow>
               generate_attempt self c model (w2 @ [Sleep (min 10 (max 4 (1 * 2 ^ 1)))])))"
proof -
  let ?fn = "generate_attempt self c model"
  let ?wt = "wait_exponential 1 4 10"
  have d0: "?wt 1 = min 10 (max 4 (1 * 2 ^ 0))" and d1: "?wt 2 = min 10 (max 4 (1 * 2 ^ 1))"
    by (simp_all add: wait_exponential_def)
  have last: "retrying 3 ?wt 3 ?fn v = ?fn v" for v
  proof (cases "?fn v")
    case (Pair r v1)
    then show ?thesis
      by (cases r) (simp_all add: retrying_Inr retrying_stop)
  qed
  have second: "retrying 3 ?wt 2 ?fn v =
      (case ?fn v of (Inr r, w2) \<Rightarrow> (Inr r, w2)
       | (Inl e2, w2) \<Rightarrow> ?fn (w2 @ [Sleep (?wt 2)]))" for v
  proof (cases "?fn v")
    case (Pair r v1)
    show ?thesis
    proof (cases r)
      case (Inl e)
      then have "retrying 3 ?wt 2 ?fn v = retrying 3 ?wt (Suc 2) ?fn (v1 @ [Sleep (?wt 2)])"
        using Pair by (intro retrying_again) simp_all
      then show ?thesis
        using Pair Inl last by (simp add: eval_nat_numeral)
    next
      case (Inr t)
      then show ?thesis using Pair by (simp add: retrying_Inr)
    qed
  qed
  have first: "retrying 3 ?wt 1 ?fn w =
      (case ?fn w of (Inr r, w1) \<Rightarrow> (Inr r, w1)
       | (Inl e1, w1) \<Rightarrow> retrying 3 ?wt 2 ?fn (w1 @ [Sleep (?wt 1)]))"
  proof (cases "?fn w")
    case (Pair r v1)
    show ?thesis
    proof (cases r)
      case (Inl e)
      then have "retrying 3 ?wt 1 ?fn w = retrying 3 ?wt (Suc 1) ?fn (v1 @ [Sleep (?wt 1)])"
        using Pair by (intro retrying_again) simp_all
      then show ?thesis
        using Pair Inl by (simp add: eval_nat_numeral)
    next
      case (Inr t)
      then show ?thesis using Pair by (simp add: retrying_Inr)
    qed
  qed
  show ?thesis
    unfolding generate_with_retry_def first second d0 d1 ..
qed

lemma generate_attempt_result_sleeps:
  "generate_attempt self c model w = (r, w1) \<Longrightarrow> sleeps w1 = sleeps w"
  using generate_attempt_sleeps [of self c model w] by simp

lemma generate_with_retry_failed_sleeps:
  assumes "fst (generate_with_retry self c model w) = Inl e"
  shows "sleeps (snd (generate_with_retry self c model w)) = sleeps w @ [4, 4]"
proof -
  let ?fn = "generate_attempt self c model"
  obtain r1 w1 where a1: "?fn w = (r1, w1)" by (cases "?fn w")
  obtain r2 w2 where a2: "?fn (w1 @ [Sleep 4]) = (r2, w2)" by (cases "?fn (w1 @ [Sleep 4])")
  obtain r3 w3 where a3: "?fn (w2 @ [Sleep 4]) = (r3, w3)" by (cases "?fn (w2 @ [Sleep 4])")
  have s1: "sleeps w1 = sleeps w" using a1 by (rule generate_attempt_result_sleeps)
  have s2: "sleeps w2 = sleeps w1 @ [4]"
    using generate_attempt_result_sleeps [OF a2] by simp
  have s3: "sleeps w3 = sleeps w2 @ [4]"
    using generate_attempt_result_sleeps [OF a3] by simp
  from assms obtain e1 where r1: "r1 = Inl e1"
    using a1 a2 a3 by (cases r1; cases r2) (simp_all add: generate_with_retry_unrolled)
  from assms obtain e2 where r2: "r2 = Inl e2"
    using a1 a2 a3 r1 by (cases r2) (simp_all add: generate_with_retry_unrolled)
  have "generate_with_retry self c model w = (r3, w3)"
    using a1 a2 a3 r1 r2 by (simp add: generate_with_retry_unrolled)
  then show ?thesis
    by (simp add: s1 s2 s3)
qed

text \<open>
  C4. With the configured constants (multiplier 1, minimum 4, maximum 10) the wait after
  the attempt of index \<open>i\<close>, counted from 0, is \<open>min 10 (max 4 (1 * 2 ^ i))\<close>, for every
  \<open>i\<close>, and the wait strategy agrees with the formula for any multiplier and any bounds
  with \<open>0 \<le> min \<le> max\<close>. The loop puts this delay between two attempts: when the
  attempt of index \<open>i\<close> fails and the budget allows another, the loop sleeps for exactly
  that time and then makes the next attempt; when every attempt fails, the sleeps are
  the values of the formula at \<open>0, ..., n - 2\<close> for budget \<open>n\<close>. For the program itself:
  \<^verbatim>\<open>generate_with_retry\<close> is its first attempt, then, if that failed, a sleep of the
  delay for index 0 and the second attempt, then, if that failed too, a sleep of the
  delay for index 1 and the third attempt, whose outcome is final. So the sleeps of any
  call are the first \<open>k\<close> of these values for some \<open>k \<le> 2\<close>, and they are 4 and 4 when
  the call fails. For \<open>i = 0, 1, 2\<close> the formula gives 4, 4, 4.
\<close>

theorem backoff_delay_formula:
  "(\<forall>i. wait_exponential 1 4 10 (Suc i) = min 10 (max 4 (1 * 2 ^ i))) \<and>
   (0 \<le> backoff_min \<and> backoff_min \<le> backoff_max \<longrightarrow>
      wait_exponential backoff_base backoff_min backoff_max (Suc j) =
        min backoff_max (max backoff_min (backoff_base * 2 ^ j))) \<and>
   (\<exists>k\<le>2. sleeps (snd (generate_with_retry self c model w)) =
             sleeps w @ map (\<lambda>i. min 10 (max 4 (1 * 2 ^ i))) [0 ..< k]) \<and>
   map (\<lambda>i. wait_exponential 1 4 10 (Suc i)) [0, 1, 2] = [4, 4, 4] \<and>
   (fn v = (Inl e, v1) \<and> Suc i < n \<longrightarrow>
      retrying n (wait_exponential 1 4 10) (Suc i) fn v =
        retrying n (wait_exponential 1 4 10) (Suc (Suc i)) fn
          (v1 @ [Sleep (min 10 (max 4 (1 * 2 ^ i)))])) \<and>
   ((\<forall>u. \<exists>x u1. fn u = (Inl x, u1) \<and> sleeps u1 = sleeps u) \<longrightarrow>
      sleeps (snd (retrying n (wait_exponential 1 4 10) 1 fn v)) =
        sleeps v @ map (\<lambda>i. min 10 (max 4 (1 * 2 ^ i))) [0 ..< n - 1]) \<and>
   generate_with_retry self c model w =
     (case generate_attempt self c model w of
        (Inr r, w1) \<Rightarrow> (Inr r, w1)
      | (Inl e1, w1) \<Rightarrow>
          (case generate_attempt self c model (w1 @ [Sleep (min 10 (max 4 (1 * 2 ^ 0)))]) of
             (Inr r, w2) \<Rightarrow> (Inr r, w2)
           | (Inl e2, w2) \<Rightarrow>
               generate_attempt self c model (w2 @ [Sleep (min 10 (max 4 (1 * 2 ^ 1)))]))) \<and>
   (fst (generate_with_retry self c model w) = Inl e \<longrightarrow>
      sleeps (snd (generate_with_retry self c model w)) = sleeps w @ [4, 4])"
proof (intro conjI allI)
  show "wait_exponential 1 4 10 (Suc i) = min 10 (max 4 (1 * 2 ^ i))" for i
    by (rule wait_exponential_configured)
  show "0 \<le> backoff_min \<and> backoff_min \<le> backoff_max \<longrightarrow>
      wait_exponential backoff_base backoff_min backoff_max (Suc j) =
        min backoff_max (max backoff_min (backoff_base * 2 ^ j))"
    by (simp add: wait_exponential_def min_def max_def)
  obtain k where k: "k \<le> 3 - 1"
    "sleeps (snd (retrying 3 (wait_exponential 1 4 10) 1 (generate_attempt self c model) w)) =
       sleeps w @ map (wait_exponential 1 4 10) [1 ..< 1 + k]"
    using retrying_sleeps [of "generate_attempt self c model" 3 1 "wait_exponential 1 4 10" w]
      generate_attempt_sleeps
    by blast
  have "sleeps (snd (generate_with_retry self c model w)) =
          sleeps w @ map (\<lambda>i. min 10 (max 4 (1 * 2 ^ i))) [0 ..< k]"
    unfolding generate_with_retry_def k(2) map_upt_from_1 wait_exponential_configured ..
  moreover have "k \<le> 2" using k(1) by simp
  ultimately show "\<exists>k\<le>2. sleeps (snd (generate_with_retry self c model w)) =
             sleeps w @ map (\<lambda>i. min 10 (max 4 (1 * 2 ^ i))) [0 ..< k]"
    by blast
  show "map (\<lambda>i. wait_exponential 1 4 10 (Suc i)) [0, 1, 2] = [4, 4, 4]"
    by (simp add: wait_exponential_def)
  show "fn v = (Inl e, v1) \<and> Suc i < n \<longrightarrow>
      retrying n (wait_exponential 1 4 10) (Suc i) fn v =
        retrying n (wait_exponential 1 4 10) (Suc (Suc i)) fn
          (v1 @ [Sleep (min 10 (max 4 (1 * 2 ^ i)))])"
  proof
    assume a: "fn v = (Inl e, v1) \<and> Suc i < n"
    then have "retrying n (wait_exponential 1 4 10) (Suc i) fn v =
        retrying n (wait_exponential 1 4 10) (Suc (Suc i)) fn
          (v1 @ [Sleep (wait_exponential 1 4 10 (Suc i))])"
      by (intro retrying_again) simp_all
    then show "retrying n (wait_exponential 1 4 10) (Suc i) fn v =
        retrying n (wait_exponential 1 4 10) (Suc (Suc i)) fn
          (v1 @ [Sleep (min 10 (max 4 (1 * 2 ^ i)))])"
      by (simp only: wait_exponential_configured)
  qed
  show "(\<forall>u. \<exists>x u1. fn u = (Inl x, u1) \<and> sleeps u1 = sleeps u) \<longrightarrow>
      sleeps (snd (retrying n (wait_exponential 1 4 10) 1 fn v)) =
        sleeps v @ map (\<lambda>i. min 10 (max 4 (1 * 2 ^ i))) [0 ..< n - 1]"
  proof
    assume a: "\<forall>u. \<exists>x u1. fn u = (Inl x, u1) \<and> sleeps u1 = sleeps u"
    have "sleeps (snd (retrying n (wait_exponential 1 4 10) 1 fn v)) =
        sleeps v @ map (wait_exponential 1 4 10) [1 ..< n]"
      using a by (intro retrying_always_fails_sleeps) blast
    moreover have "map (wait_exponential 1 4 10) [1 ..< n] =
        map (\<lambda>i. min 10 (max 4 (1 * 2 ^ i))) [0 ..< n - 1]"
    proof (cases n)
      case 0
      then show ?thesis by simp
    next
      case (Suc m)
      have "map (wait_exponential 1 4 10) [1 ..< 1 + m] =
          map (\<lambda>i. wait_exponential 1 4 10 (Suc i)) [0 ..< m]"
        by (rule map_upt_from_1)
      then show ?thesis
        by (simp add: Suc wait_exponential_configured)
    qed
    ultimately show "sleeps (snd (retrying n (wait_exponential 1 4 10) 1 fn v)) =
        sleeps v @ map (\<lambda>i. min 10 (max 4 (1 * 2 ^ i))) [0 ..< n - 1]"
      by simp
  qed
  show "generate_with_retry self c model w =
     (case generate_attempt self c model w of
        (Inr r, w1) \<Rightarrow> (Inr r, w1)
      | (Inl e1, w1) \<Rightarrow>
          (case generate_attempt self c model (w1 @ [Sleep (min 10 (max 4 (1 * 2 ^ 0)))]) of
             (Inr r, w2) \<Rightarrow> (Inr r, w2)
           | (Inl e2, w2) \<Rightarrow>
               generate_attempt self c model (w2 @ [Sleep (min 10 (max 4 (1 * 2 ^ 1)))])))"
    by (rule generate_with_retry_unrolled)
  show "fst (generate_with_retry self c model w) = Inl e \<longrightarrow>
      sleeps (snd (generate_with_retry self c model w)) = sleeps w @ [4, 4]"
    using generate_with_retry_failed_sleeps by blast
qed

text \<open>
  The theorem at the configured constants and the attempt of index 3, where the
  exponential term, 8, lies between the bounds, and at a call whose three attempts fail.
\<close>

theorem backoff_delay_formula_witness:
  "(0::int) \<le> 4 \<and> (4::int) \<le> 10 \<and> wait_exponential 1 4 10 4 = 8 \<and>
   sleeps (snd (generate_with_retry example_generator CreativeModel
      (\<lambda>k. Inl RateLimitError) [])) = [4, 4]"
proof -
  have f: "fst (generate_with_retry example_generator CreativeModel
      (\<lambda>k. Inl RateLimitError) []) = Inl (OtherException (py ''ValueError''))"
    by (simp add: retry_eval example_generator_def)
  have "sleeps (snd (generate_with_retry example_generator CreativeModel
      (\<lambda>k. Inl RateLimitError) [])) = sleeps [] @ [4, 4]"
    using backoff_delay_formula
      [of 4 10 1 3 example_generator CreativeModel "\<lambda>k. Inl RateLimitError" "[]" _ _
          "OtherException (py ''ValueError'')"] f
    by blast
  moreover have "wait_exponential 1 4 10 4 = 8"
    using backoff_delay_formula
      [THEN conjunct2, THEN conjunct1, of 4 10 1 3]
    by simp
  ultimately show ?thesis by simp
qed

section \<open>Retry and fallback: results\<close>

text \<open>
  C1, as the code has it. The fallback is part of every attempt, not a step after the
  last one: the retry loop repeats the whole body, primary call and backup call. For
  every budget \<open>n \<ge> 1\<close> (the code fixes it at 3), a primary client that raises an
  \<^verbatim>\<open>anthropic\<close> error at every call and a backup that raises at every call, the clients
  are called in the order primary, backup, primary, backup, ..., \<open>n\<close> times each, and the
  outcome is the error of the last backup call, raised again. When the backup answers
  the first time it is asked, its answer is returned after a single call of the primary.
\<close>

theorem generate_with_retry_fallback_in_every_attempt:
  "generate_with_retry self c model w =
     retrying 3 (wait_exponential 1 4 10) 1 (generate_attempt self c model) w \<and>
   (1 \<le> n \<and> c \<noteq> BackupModel \<and>
    (\<forall>k. \<exists>e. model k = Inl e \<and> (isinstance_RateLimitError e \<or> isinstance_APIError e)) \<and>
    (\<forall>k. \<exists>e. backup_model self k = Inl e) \<longrightarrow>
      (\<exists>w'. retrying n (wait_exponential 1 4 10) 1 (generate_attempt self c model) w =
               (backup_model self (count_list w (Invoke BackupModel) + (n - 1)), w') \<and>
            invocations w' = invocations w @ concat (replicate n [c, BackupModel]))) \<and>
   (c \<noteq> BackupModel \<and> model (count_list w (Invoke c)) = Inl e \<and>
    (isinstance_RateLimitError e \<or> isinstance_APIError e) \<and>
    backup_model self (count_list w (Invoke BackupModel)) = Inr t \<longrightarrow>
      retrying n (wait_exponential 1 4 10) 1 (generate_attempt self c model) w =
        (Inr t, w @ [Invoke c, LoggerWarning e, Invoke BackupModel]))"
proof (intro conjI impI)
  show "generate_with_retry self c model w =
     retrying 3 (wait_exponential 1 4 10) 1 (generate_attempt self c model) w"
    by (rule generate_with_retry_def)
next
  assume a: "1 \<le> n \<and> c \<noteq> BackupModel \<and>
    (\<forall>k. \<exists>e. model k = Inl e \<and> (isinstance_RateLimitError e \<or> isinstance_APIError e)) \<and>
    (\<forall>k. \<exists>e. backup_model self k = Inl e)"
  then have n: "Suc (n - 1) = n" by simp
  from a obtain w' where
    "retrying n (wait_exponential 1 4 10) 1 (generate_attempt self c model) w =
       (backup_model self (count_list w (Invoke BackupModel) + (n - 1)), w')"
    "invocations w' = invocations w @ concat (replicate (Suc (n - 1)) [c, BackupModel])"
    using retrying_both_fail [of model self c n "wait_exponential 1 4 10" 1 w] by blast
  then show "\<exists>w'. retrying n (wait_exponential 1 4 10) 1 (generate_attempt self c model) w =
               (backup_model self (count_list w (Invoke BackupModel) + (n - 1)), w') \<and>
            invocations w' = invocations w @ concat (replicate n [c, BackupModel])"
    unfolding n by blast
next
  assume a: "c \<noteq> BackupModel \<and> model (count_list w (Invoke c)) = Inl e \<and>
    (isinstance_RateLimitError e \<or> isinstance_APIError e) \<and>
    backup_model self (count_list w (Invoke BackupModel)) = Inr t"
  then have "generate_attempt self c model w =
      (Inr t, w @ [Invoke c, LoggerWarning e, Invoke BackupModel])"
    by (intro attempt_backup_answers) auto
  then show "retrying n (wait_exponential 1 4 10) 1 (generate_attempt self c model) w =
        (Inr t, w @ [Invoke c, LoggerWarning e, Invoke BackupModel])"
    by (rule retrying_Inr)
qed

text \<open>
  The theorem at budget 3, a primary that always raises \<^verbatim>\<open>RateLimitError\<close> and the
  example backup, which always raises.
\<close>

theorem generate_with_retry_fallback_in_every_attempt_witness:
  "\<exists>w'. generate_with_retry example_generator CreativeModel (\<lambda>k. Inl RateLimitError) [] =
          (Inl (OtherException (py ''ValueError'')), w') \<and>
        invocations w' = [CreativeModel, BackupModel, CreativeModel, BackupModel,
                          CreativeModel, BackupModel]"
  using generate_with_retry_fallback_in_every_attempt
    [of example_generator CreativeModel "\<lambda>k. Inl RateLimitError" "[]" 3]
  by (simp add: example_generator_def numeral_3_eq_3)

text \<open>
  C1 as stated fails. With a primary that always raises \<^verbatim>\<open>RateLimitError\<close> and a backup
  that always raises, the backup is not kept for the end and it is not called once: it
  is called in each of the three attempts, right after the call of the primary, with the
  sleeps of the loop in between, and what comes out is the error of its last call.
\<close>

theorem generate_with_retry_fallback_retried:
  "generate_with_retry example_generator CreativeModel (\<lambda>k. Inl RateLimitError) [] =
     (Inl (OtherException (py ''ValueError'')),
      [Invoke CreativeModel, LoggerWarning RateLimitError, Invoke BackupModel,
       LoggerError (OtherException (py ''ValueError'')), Sleep 4,
       Invoke CreativeModel, LoggerWarning RateLimitError, Invoke BackupModel,
       LoggerError (OtherException (py ''ValueError'')), Sleep 4,
       Invoke CreativeModel, LoggerWarning RateLimitError, Invoke BackupModel,
       LoggerError (OtherException (py ''ValueError''))])"
  by (simp add: retry_eval example_generator_def)

text \<open>
  C2, as the code has it. No exception ends the retry loop early. An exception of the
  primary outside the \<^verbatim>\<open>anthropic\<close> hierarchy is not caught by the body, so no backup is
  asked, and the loop retries it like any other: a primary that raises such errors at
  every call is called exactly \<open>n\<close> times for budget \<open>n \<ge> 1\<close>, and its last error is raised.
  An \<^verbatim>\<open>anthropic\<close> authentication or bad-request error is an \<^verbatim>\<open>APIError\<close>: it is caught
  and the backup is called in the same attempt.
\<close>

theorem generate_with_retry_retries_every_error:
  "isinstance_APIError AuthenticationError \<and> isinstance_APIError BadRequestError \<and>
   (1 \<le> n \<and>
    (\<forall>k. \<exists>e. model k = Inl e \<and> \<not> isinstance_RateLimitError e \<and> \<not> isinstance_APIError e) \<longrightarrow>
      (\<exists>w'. retrying n (wait_exponential 1 4 10) 1 (generate_attempt self c model) w =
               (model (count_list w (Invoke c) + (n - 1)), w') \<and>
            invocations w' = invocations w @ replicate n c)) \<and>
   (c \<noteq> BackupModel \<and> model (count_list w (Invoke c)) = Inl e \<and> isinstance_APIError e \<longrightarrow>
      invocations (snd (generate_attempt self c model w)) = invocations w @ [c, BackupModel])"
proof (intro conjI impI)
  show "isinstance_APIError AuthenticationError" by simp
  show "isinstance_APIError BadRequestError" by simp
next
  assume a: "1 \<le> n \<and>
    (\<forall>k. \<exists>e. model k = Inl e \<and> \<not> isinstance_RateLimitError e \<and> \<not> isinstance_APIError e)"
  then have n: "Suc (n - 1) = n" by simp
  from a obtain w' where
    "retrying n (wait_exponential 1 4 10) 1 (generate_attempt self c model) w =
       (model (count_list w (Invoke c) + (n - 1)), w')"
    "invocations w' = invocations w @ replicate (Suc (n - 1)) c"
    using retrying_uncaught [of model n "wait_exponential 1 4 10" 1 self c w] by blast
  then show "\<exists>w'. retrying n (wait_exponential 1 4 10) 1 (generate_attempt self c model) w =
               (model (count_list w (Invoke c) + (n - 1)), w') \<and>
            invocations w' = invocations w @ replicate n c"
    unfolding n by blast
next
  assume "c \<noteq> BackupModel \<and> model (count_list w (Invoke c)) = Inl e \<and> isinstance_APIError e"
  then show "invocations (snd (generate_attempt self c model w)) = invocations w @ [c, BackupModel]"
    by (auto simp: generate_attempt_def invoke_def split: sum.splits)
qed

text \<open>
  The theorem at budget 3 and a research client (an OpenAI client) that rejects the key
  at every call.
\<close>

theorem generate_with_retry_retries_every_error_witness:
  "\<exists>w'. generate_with_retry example_generator ResearchModel
          (\<lambda>k. Inl (OtherException (py ''openai.AuthenticationError''))) [] =
          (Inl (OtherException (py ''openai.AuthenticationError'')), w') \<and>
        invocations w' = [ResearchModel, ResearchModel, ResearchModel]"
  using generate_with_retry_retries_every_error
    [of 3 "\<lambda>k. Inl (OtherException (py ''openai.AuthenticationError''))"
        example_generator ResearchModel "[]"]
  by (simp add: generate_with_retry_def numeral_3_eq_3)

text \<open>
  C2 as stated fails: an authentication error of the OpenAI client is followed by two
  more calls of the same client, with the usual sleeps; an authentication error of the
  Anthropic client is followed by a call of the backup, and then by two more attempts
  of the same kind.
\<close>

theorem generate_with_retry_auth_error_retried:
  "generate_with_retry example_generator ResearchModel
     (\<lambda>k. Inl (OtherException (py ''openai.AuthenticationError''))) [] =
     (Inl (OtherException (py ''openai.AuthenticationError'')),
      [Invoke ResearchModel, Sleep 4, Invoke ResearchModel, Sleep 4, Invoke ResearchModel]) \<and>
   invocations (snd (generate_with_retry example_generator CreativeModel
       (\<lambda>k. Inl AuthenticationError) [])) =
     [CreativeModel, BackupModel, CreativeModel, BackupModel, CreativeModel, BackupModel]"
  by (simp add: retry_eval example_generator_def)

section \<open>Formatting and the pipeline: results\<close>

text \<open>Facts for running the whole method on concrete clients.\<close>

lemmas run_eval = generate_technical_content_def retry_eval example_generator_def
  example_formatters_def log_and_progress_def format_code_def format_code_try_def
  lower_ascii_def extract_defs research_prompt_def creative_prompt_def code_prompt_def Let_def

text \<open>
  C7. For every code string, every language and every behaviour of the libraries,
  \<^verbatim>\<open>format_code\<close> returns. When \<^verbatim>\<open>black.format_str\<close> or \<^verbatim>\<open>isort.code\<close> raises, the
  exception is logged and the code is returned as it was given. When the lower-cased
  language is not \<^verbatim>\<open>python\<close>, the code is returned as it was given and the trace is
  unchanged: neither library is called.
\<close>

theorem format_code_never_raises:
  "(\<exists>r w'. format_code lib code lang w = (Inr r, w')) \<and>
   (str_lower lib lang = py ''python'' \<and> black_format_str lib code = Inl e \<longrightarrow>
      format_code lib code lang w = (Inr code, w @ [BlackFormatStr code, LoggerError e])) \<and>
   (str_lower lib lang = py ''python'' \<and> black_format_str lib code = Inr f \<and>
    isort_code lib f = Inl e \<longrightarrow>
      format_code lib code lang w =
        (Inr code, w @ [BlackFormatStr code, IsortCode f, LoggerError e])) \<and>
   (str_lower lib lang \<noteq> py ''python'' \<longrightarrow> format_code lib code lang w = (Inr code, w))"
proof (intro conjI impI)
  show "\<exists>r w'. format_code lib code lang w = (Inr r, w')"
    by (rule format_code_returns)
qed (simp_all add: format_code_def format_code_try_def)

text \<open>
  The theorem at a formatter that rejects \<^verbatim>\<open>def f(:\<close>, and at the language
  \<^verbatim>\<open>JavaScript\<close>.
\<close>

theorem format_code_never_raises_witness:
  "format_code (example_formatters \<lparr> black_format_str := \<lambda>code. Inl (OtherException (py ''InvalidInput'')) \<rparr>)
      (py ''def f(:'') (py ''python'') [] =
     (Inr (py ''def f(:''),
      [BlackFormatStr (py ''def f(:''), LoggerError (OtherException (py ''InvalidInput''))]) \<and>
   format_code example_formatters (py ''x = 1'') (py ''JavaScript'') [] = (Inr (py ''x = 1''), [])"
  using format_code_never_raises
    [of "example_formatters \<lparr> black_format_str := \<lambda>code. Inl (OtherException (py ''InvalidInput'')) \<rparr>"
        "py ''def f(:''" "py ''python''" "[]" "OtherException (py ''InvalidInput'')"]
    format_code_never_raises [of example_formatters "py ''x = 1''" "py ''JavaScript''" "[]"]
  by (simp add: example_formatters_def lower_ascii_def py_def)

text \<open>
  C9. Whenever \<^verbatim>\<open>generate_technical_content\<close> returns a report, the \<^verbatim>\<open>language\<close> of its
  code example is \<^verbatim>\<open>python\<close> and the \<^verbatim>\<open>explanation\<close> is the fixed sentence, whatever
  the topic, the callbacks, the clients and the libraries.
\<close>

theorem report_constant_fields:
  "generate_technical_content self lib topic progress_callback log_callback w = (Inr report, w')
   \<Longrightarrow> language (code_example report) = py ''python'' \<and>
       explanation (code_example report) = py ''Code example generated for the given topic''"
  by (auto simp: generate_technical_content_def Let_def split: prod.splits sum.splits)

text \<open>
  The theorem at the run of the example clients on the topic \<^verbatim>\<open>topic\<close>, which returns
  a report.
\<close>

theorem report_constant_fields_witness:
  "\<exists>report w'.
     generate_technical_content example_generator example_formatters (py ''topic'') True True []
       = (Inr report, w') \<and>
     blog_structure report = py ''R'' \<and> blog_content report = py ''D using R'' \<and>
     original (code_example report) = py ''print(1)'' \<and>
     language (code_example report) = py ''python'' \<and>
     explanation (code_example report) = py ''Code example generated for the given topic''"
proof -
  obtain r w' where run:
    "generate_technical_content example_generator example_formatters (py ''topic'') True True []
       = (r, w')"
    by (cases "generate_technical_content example_generator example_formatters (py ''topic'') True True []")
  have "fst (generate_technical_content example_generator example_formatters (py ''topic'') True True [])
      = Inr \<lparr> blog_structure = py ''R'', blog_content = py ''D using R'',
          code_example = \<lparr> original = py ''print(1)'', formatted = py ''print(1)\<newline>'',
             language = py ''python'', explanation = py ''Code example generated for the given topic'' \<rparr> \<rparr>"
    by (simp add: run_eval)
  then obtain report where report: "r = Inr report" "blog_structure report = py ''R''"
      "blog_content report = py ''D using R''" "original (code_example report) = py ''print(1)''"
    using run by auto
  show ?thesis
    using report_constant_fields [OF run [unfolded report(1)]] run report by blast
qed

text \<open>
  C8, as the code has it. Each stage reports its percentage when it ends and the next
  stage reports the same percentage when it starts. In a run that returns a report, the
  percentages handed to the progress callback are 0, 25, 25, 50, 50, 75, 75, 100 in
  this order (none when no callback is given): a non-decreasing sequence of values from
  0, 25, 50, 75, 100, which read without the repetitions is 0, 25, 50, 75, 100.
\<close>

theorem progress_percentages:
  assumes "generate_technical_content self lib topic progress_callback log_callback w
             = (Inr report, w')"
  shows "\<exists>ps. percents w' = percents w @ ps \<and>
           ps = (if progress_callback then [0, 25, 25, 50, 50, 75, 75, 100] else []) \<and>
           sorted ps \<and> set ps \<subseteq> {0, 25, 50, 75, 100} \<and>
           remdups_adj ps = (if progress_callback then [0, 25, 50, 75, 100] else [])"
proof -
  let ?lp = "log_and_progress log_callback progress_callback"
  let ?w0 = "?lp (py ''Starting research phase for topic: '' @ topic) (Some 0) w"
  from assms obtain r w1 where s1:
    "generate_with_retry self ResearchModel (research_model self (research_prompt topic)) ?w0
       = (Inr r, w1)"
    by (auto simp: generate_technical_content_def Let_def split: prod.splits sum.splits)
  let ?w3 = "?lp (py ''Starting creative content development'') (Some 25)
               (?lp (py ''Research phase completed'') (Some 25) w1)"
  from assms s1 obtain d w4 where s2:
    "generate_with_retry self CreativeModel (creative_model self (creative_prompt r)) ?w3
       = (Inr d, w4)"
    by (auto simp: generate_technical_content_def Let_def split: prod.splits sum.splits)
  let ?w6 = "?lp (py ''Starting code example generation'') (Some 50)
               (?lp (py ''Creative content development completed'') (Some 50) w4)"
  from assms s1 s2 obtain t w7 where s3:
    "generate_with_retry self CodeModel (code_model self (code_prompt topic)) ?w6
       = (Inr t, w7)"
    by (auto simp: generate_technical_content_def Let_def split: prod.splits sum.splits)
  let ?w9 = "?lp (py ''Extracting and formatting code'') (Some 75)
               (?lp (py ''Code example generation completed'') (Some 75) w7)"
  from assms s1 s2 s3 obtain f w10 where s4:
    "format_code lib (extract_code_block t) (py ''python'') ?w9 = (Inr f, w10)"
    and w': "w' = ?lp (py ''Content generation completed'') (Some 100) w10"
    by (auto simp: generate_technical_content_def Let_def split: prod.splits sum.splits)
  have p1: "percents w1 = percents ?w0"
    using generate_with_retry_percents [of self ResearchModel "research_model self (research_prompt topic)" ?w0] s1 by simp
  have p4: "percents w4 = percents ?w3"
    using generate_with_retry_percents [of self CreativeModel "creative_model self (creative_prompt r)" ?w3] s2 by simp
  have p7: "percents w7 = percents ?w6"
    using generate_with_retry_percents [of self CodeModel "code_model self (code_prompt topic)" ?w6] s3 by simp
  have p10: "percents w10 = percents ?w9"
    using format_code_percents [of lib "extract_code_block t" "py ''python''" ?w9] s4 by simp
  have "percents w' = percents w @
          (if progress_callback then [0, 25, 25, 50, 50, 75, 75, 100] else [])"
    by (simp add: w' log_and_progress_percents p10 p7 p4 p1)
  then show ?thesis by auto
qed

text \<open>
  The theorem at the run of the example clients with both callbacks given.
\<close>

theorem progress_percentages_witness:
  "\<exists>report w'.
     generate_technical_content example_generator example_formatters (py ''topic'') True True []
       = (Inr report, w') \<and>
     percents w' = [0, 25, 25, 50, 50, 75, 75, 100] \<and>
     remdups_adj (percents w') = [0, 25, 50, 75, 100]"
proof -
  obtain r w' where run:
    "generate_technical_content example_generator example_formatters (py ''topic'') True True []
       = (r, w')"
    by (cases "generate_technical_content example_generator example_formatters (py ''topic'') True True []")
  have "\<exists>report. fst (generate_technical_content example_generator example_formatters
          (py ''topic'') True True []) = Inr report"
    by (simp add: run_eval)
  then obtain report where report: "r = Inr report"
    using run by auto
  show ?thesis
    using progress_percentages [OF run [unfolded report]] run report by auto
qed

text \<open>
  C8 as stated fails in its last part: the events observed in a successful run are
  eight, not the five of the list 0, 25, 50, 75, 100.
\<close>

theorem progress_percentages_repeat:
  "percents (snd (generate_technical_content example_generator example_formatters
      (py ''topic'') True True [])) = [0, 25, 25, 50, 50, 75, 75, 100] \<and>
   percents (snd (generate_technical_content example_generator example_formatters
      (py ''topic'') True True [])) \<noteq> [0, 25, 50, 75, 100]"
  by (simp add: run_eval)

text \<open>
  C3, as the code has it. When the call of \<^verbatim>\<open>generate_with_retry\<close> for a stage raises,
  \<^verbatim>\<open>generate_technical_content\<close> raises the same exception: there is no report, partial
  or not, and the text of the stages before is not handed to the caller. The clients of
  the later stages are not called: after a failure of the research stage neither the
  creative nor the code client has been called, and after a failure of the draft stage
  the code client has not been called.
\<close>

theorem generate_technical_content_raises:
  "(generate_with_retry self ResearchModel (research_model self (research_prompt topic))
      (log_and_progress log_callback progress_callback
         (py ''Starting research phase for topic: '' @ topic) (Some 0) w) = (Inl e, w1) \<longrightarrow>
      generate_technical_content self lib topic progress_callback log_callback w = (Inl e, w1) \<and>
      count_list w1 (Invoke CreativeModel) = count_list w (Invoke CreativeModel) \<and>
      count_list w1 (Invoke CodeModel) = count_list w (Invoke CodeModel)) \<and>
   (generate_with_retry self ResearchModel (research_model self (research_prompt topic))
      (log_and_progress log_callback progress_callback
         (py ''Starting research phase for topic: '' @ topic) (Some 0) w) = (Inr r, w1) \<and>
    generate_with_retry self CreativeModel (creative_model self (creative_prompt r))
      (log_and_progress log_callback progress_callback
         (py ''Starting creative content development'') (Some 25)
         (log_and_progress log_callback progress_callback
            (py ''Research phase completed'') (Some 25) w1)) = (Inl e, w4) \<longrightarrow>
      generate_technical_content self lib topic progress_callback log_callback w = (Inl e, w4) \<and>
      count_list w4 (Invoke CodeModel) = count_list w (Invoke CodeModel))"
proof (intro conjI impI)
  let ?lp = "log_and_progress log_callback progress_callback"
  let ?w0 = "?lp (py ''Starting research phase for topic: '' @ topic) (Some 0) w"
  assume s1: "generate_with_retry self ResearchModel (research_model self (research_prompt topic))
      ?w0 = (Inl e, w1)"
  show "generate_technical_content self lib topic progress_callback log_callback w = (Inl e, w1)"
    using s1 by (simp add: generate_technical_content_def Let_def)
  show "count_list w1 (Invoke CreativeModel) = count_list w (Invoke CreativeModel)"
    using generate_with_retry_other_client
      [of CreativeModel ResearchModel self "research_model self (research_prompt topic)" ?w0] s1
    by (simp add: log_and_progress_count_Invoke)
  show "count_list w1 (Invoke CodeModel) = count_list w (Invoke CodeModel)"
    using generate_with_retry_other_client
      [of CodeModel ResearchModel self "research_model self (research_prompt topic)" ?w0] s1
    by (simp add: log_and_progress_count_Invoke)
next
  let ?lp = "log_and_progress log_callback progress_callback"
  let ?w0 = "?lp (py ''Starting research phase for topic: '' @ topic) (Some 0) w"
  let ?w3 = "?lp (py ''Starting creative content development'') (Some 25)
               (?lp (py ''Research phase completed'') (Some 25) w1)"
  assume s: "generate_with_retry self ResearchModel (research_model self (research_prompt topic))
      ?w0 = (Inr r, w1) \<and>
    generate_with_retry self CreativeModel (creative_model self (creative_prompt r)) ?w3
      = (Inl e, w4)"
  show "generate_technical_content self lib topic progress_callback log_callback w = (Inl e, w4)"
    using s by (simp add: generate_technical_content_def Let_def)
  have "count_list w1 (Invoke CodeModel) = count_list w (Invoke CodeModel)"
    using generate_with_retry_other_client
      [of CodeModel ResearchModel self "research_model self (research_prompt topic)" ?w0] s
    by (simp add: log_and_progress_count_Invoke)
  moreover have "count_list w4 (Invoke CodeModel) = count_list w1 (Invoke CodeModel)"
    using generate_with_retry_other_client
      [of CodeModel CreativeModel self "creative_model self (creative_prompt r)" ?w3] s
    by (simp add: log_and_progress_count_Invoke)
  ultimately show "count_list w4 (Invoke CodeModel) = count_list w (Invoke CodeModel)"
    by simp
qed

text \<open>
  The theorem at a run whose research client answers \<^verbatim>\<open>R\<close> and whose creative client
  and backup client raise at every call.
\<close>

theorem generate_technical_content_raises_witness:
  "\<exists>w'. generate_technical_content
          (example_generator \<lparr> creative_model := \<lambda>p k. Inl RateLimitError \<rparr>)
          example_formatters (py ''topic'') True True [] =
          (Inl (OtherException (py ''ValueError'')), w') \<and>
        count_list w' (Invoke CodeModel) = 0"
proof -
  let ?g = "example_generator \<lparr> creative_model := \<lambda>p k. Inl RateLimitError \<rparr>"
  let ?w0 = "log_and_progress True True
               (py ''Starting research phase for topic: '' @ py ''topic'') (Some 0) []"
  let ?w1 = "?w0 @ [Invoke ResearchModel]"
  let ?w3 = "log_and_progress True True (py ''Starting creative content development'') (Some 25)
               (log_and_progress True True (py ''Research phase completed'') (Some 25) ?w1)"
  have s1: "generate_with_retry ?g ResearchModel (research_model ?g (research_prompt (py ''topic'')))
              ?w0 = (Inr (py ''R''), ?w1)"
    by (simp add: retry_eval example_generator_def log_and_progress_def)
  obtain x w4 where s2: "generate_with_retry ?g CreativeModel
      (creative_model ?g (creative_prompt (py ''R''))) ?w3 = (x, w4)"
    by (cases "generate_with_retry ?g CreativeModel
      (creative_model ?g (creative_prompt (py ''R''))) ?w3")
  have "fst (generate_with_retry ?g CreativeModel
      (creative_model ?g (creative_prompt (py ''R''))) ?w3) = Inl (OtherException (py ''ValueError''))"
    by (simp add: retry_eval example_generator_def log_and_progress_def)
  then have x: "x = Inl (OtherException (py ''ValueError''))"
    using s2 by simp
  show ?thesis
    using generate_technical_content_raises
      [of ?g "py ''topic''" True True "[]" "OtherException (py ''ValueError'')" ?w1
          example_formatters "py ''R''" w4]
      s1 s2 [unfolded x]
    by simp
qed

text \<open>
  C3 as stated fails: in that run the outcome is the exception of the backup client, not
  a report with the research text in it.
\<close>

theorem generate_technical_content_no_partial_report:
  "fst (generate_technical_content
          (example_generator \<lparr> creative_model := \<lambda>p k. Inl RateLimitError \<rparr>)
          example_formatters (py ''topic'') True True []) =
     Inl (OtherException (py ''ValueError''))"
  by (simp add: run_eval)

end
